theory Spec2Isabelle
  imports Main
begin

section \<open>The guided-breathing timer: a model of the App component\<close>

text \<open>
  The component keeps six state variables, three refs and one entry of the durable
  key-value store. Every handler, timer callback and effect of the component is a
  function on a record of that state. A JavaScript exception is the value \<open>Inl\<close>
  of a sum type; no handler of the component catches one.
\<close>

subsection \<open>JavaScript numbers holding a counter\<close>

text \<open>
  \<open>totalSessions\<close> is a JavaScript number. \<open>Num n\<close> is a double that holds the
  integer \<open>n\<close> exactly, which every integer of magnitude at most \<open>2 ^ 53\<close> is;
  \<open>NaN\<close> is the not-a-number value; \<open>Untracked\<close> is any other double, whose
  value this model does not follow.
\<close>

datatype jsnum = Num int | NaN | Untracked

definition toNumber :: "int \<Rightarrow> jsnum" where
  "toNumber v = (if \<bar>v\<bar> \<le> 2 ^ 53 then Num v else Untracked)"

text \<open>
  \<open>x + 1\<close>: exact for \<open>- (2 ^ 53) \<le> x < 2 ^ 53\<close>; \<open>2 ^ 53 + 1\<close> rounds back to
  \<open>2 ^ 53\<close>. An integer of larger magnitude is not a value \<open>Num\<close> stands for, and the sum
  is not followed.
\<close>

fun jsAdd1 :: "jsnum \<Rightarrow> jsnum" where
  "jsAdd1 (Num n) =
     (if n < - (2 ^ 53) \<or> 2 ^ 53 < n then Untracked
      else if n < 2 ^ 53 then Num (n + 1) else Num n)"
| "jsAdd1 NaN = NaN"
| "jsAdd1 Untracked = Untracked"

subsection \<open>Strings: \<open>parseInt(s, 10)\<close> and \<open>Number.prototype.toString\<close>\<close>

text \<open>
  Strings are lists of code units below 256. \<open>parseInt\<close> trims leading white space,
  reads an optional sign, and takes the longest run of decimal digits that follows;
  with no digit there the result is \<open>NaN\<close>.
\<close>

definition isWhite :: "char \<Rightarrow> bool" where
  "isWhite c = (of_char c \<in> {9, 10, 11, 12, 13, 32, 160 :: nat})"

definition isDigit :: "char \<Rightarrow> bool" where
  "isDigit c = (48 \<le> (of_char c :: nat) \<and> (of_char c :: nat) \<le> 57)"

definition digitVal :: "char \<Rightarrow> nat" where
  "digitVal c = of_char c - 48"

fun digitsValue :: "nat \<Rightarrow> string \<Rightarrow> nat" where
  "digitsValue acc [] = acc"
| "digitsValue acc (c # cs) = digitsValue (acc * 10 + digitVal c) cs"

definition parseInt10 :: "string \<Rightarrow> jsnum" where
  "parseInt10 s =
     (let t = dropWhile isWhite s;
          neg = (case t of [] \<Rightarrow> False | c # _ \<Rightarrow> c = CHR ''-'');
          r = (case t of [] \<Rightarrow> []
                 | c # cs \<Rightarrow> if c = CHR ''+'' \<or> c = CHR ''-'' then cs else t);
          z = takeWhile isDigit r
      in if z = [] then NaN
         else toNumber ((if neg then - 1 else 1) * int (digitsValue 0 z)))"

definition digitChar :: "nat \<Rightarrow> char" where
  "digitChar d = char_of (48 + d)"

fun showNat :: "nat \<Rightarrow> string" where
  "showNat n = (if n < 10 then [digitChar n] else showNat (n div 10) @ [digitChar (n mod 10)])"

declare showNat.simps [simp del]

definition showInt :: "int \<Rightarrow> string" where
  "showInt i = (if i < 0 then CHR ''-'' # showNat (nat (- i)) else showNat (nat i))"

text \<open>
  The entry \<open>meditation_count\<close> of the store: absent, a text, or the text of a
  number this model does not follow.
\<close>

datatype stored = Absent | Text string | UntrackedText

fun numberToStored :: "jsnum \<Rightarrow> stored" where
  "numberToStored (Num n) = Text (showInt n)"
| "numberToStored NaN = Text ''NaN''"
| "numberToStored Untracked = UntrackedText"

subsection \<open>State of the component\<close>

datatype BreathPhase = Ready | Inhale | Hold | Exhale | Complete

datatype OscillatorType = sine | triangle

datatype CtxState = running | suspended

datatype error = AudioError | StorageError

definition INITIAL_TIME :: int where "INITIAL_TIME = 300"
definition INHALE_TIME :: int where "INHALE_TIME = 4"
definition EXHALE_TIME :: int where "EXHALE_TIME = 4"

text \<open>The values of the hold-duration buttons: \<open>[1, 2, 4].map((sec) => <button ...>)\<close>.\<close>

definition holdOptions :: "int list" where
  "holdOptions = [1, 2, 4]"

text \<open>
  The platform the component runs on: whether \<open>new AudioContext()\<close> throws, whether
  creating and starting audio nodes throws, the state a new context starts in, and
  whether \<open>localStorage.setItem\<close> throws (a full or disabled store).
\<close>

record Platform =
  ctorThrows :: bool
  nodeThrows :: bool
  ctxInitial :: CtxState
  setItemThrows :: bool

text \<open>
  A live timer of the platform with the closure it will run. The interval callback
  calls the \<open>handleComplete\<close> of the render that created it, which reads that render's
  \<open>totalSessions\<close>. The three nested timeout callbacks of \<open>startBreathingCycle\<close> read
  \<open>isActive\<close> and \<open>holdDuration\<close> of the render that created the callback; the last
  field is the delay in milliseconds the timeout was scheduled with.
\<close>

datatype stage = ToHold | ToExhale | ToInhale

datatype timer =
    Interval jsnum
  | Timeout stage bool int int

record AppState =
  timeLeft :: int
  isActive :: bool
  phase :: BreathPhase
  holdDuration :: int
  totalSessions :: jsnum
  showCelebration :: bool
  audioContextRef :: "CtxState option"
  timerIntervalRef :: "nat option"
  phaseTimeoutRef :: "nat option"
  timers :: "nat \<rightharpoonup> timer"
  nextTimerId :: nat
  storage :: stored
  tones :: "(int \<times> OscillatorType) list"
  resumeCalls :: nat

definition bindE :: "error + 'a \<Rightarrow> ('a \<Rightarrow> error + 'b) \<Rightarrow> error + 'b" where
  "bindE r f = (case r of Inl e \<Rightarrow> Inl e | Inr x \<Rightarrow> f x)"

definition initialState :: "stored \<Rightarrow> AppState" where
  "initialState st =
     \<lparr>timeLeft = INITIAL_TIME, isActive = False, phase = Ready, holdDuration = 1,
      totalSessions = Num 0, showCelebration = False, audioContextRef = None,
      timerIntervalRef = None, phaseTimeoutRef = None, timers = Map.empty,
      nextTimerId = 1, storage = st, tones = [], resumeCalls = 0\<rparr>"

text \<open>
  The initialisation effect: \<open>if (saved) setTotalSessions(parseInt(saved, 10))\<close>.
  An absent entry (\<open>null\<close>) and the empty string are falsy, and leave the initial 0.
\<close>

definition initEffect :: "AppState \<Rightarrow> AppState" where
  "initEffect s =
     (case storage s of
        Absent \<Rightarrow> s
      | Text saved \<Rightarrow> if saved = [] then s else s\<lparr>totalSessions := parseInt10 saved\<rparr>
      | UntrackedText \<Rightarrow> s\<lparr>totalSessions := Untracked\<rparr>)"

subsection \<open>Timers of the platform\<close>

text \<open>
  \<open>setTimeout\<close> and \<open>setInterval\<close> return a fresh non-zero id.
  \<open>if (ref.current) clearTimeout(ref.current)\<close> cancels the timer whose id the ref
  holds, when the id is truthy; cancelling a timer that is gone does nothing.
\<close>

definition addTimer :: "timer \<Rightarrow> AppState \<Rightarrow> nat \<times> AppState" where
  "addTimer t s =
     (nextTimerId s,
      s\<lparr>timers := (timers s)(nextTimerId s \<mapsto> t), nextTimerId := nextTimerId s + 1\<rparr>)"

definition clearTimer :: "nat option \<Rightarrow> AppState \<Rightarrow> AppState" where
  "clearTimer r s =
     (case r of
        None \<Rightarrow> s
      | Some i \<Rightarrow> if i = 0 then s else s\<lparr>timers := (timers s)(i := None)\<rparr>)"

subsection \<open>Audio\<close>

definition playBeep :: "Platform \<Rightarrow> int \<Rightarrow> OscillatorType \<Rightarrow> AppState \<Rightarrow> error + AppState" where
  "playBeep P freq ty s =
     (if audioContextRef s = None \<and> ctorThrows P then Inl AudioError
      else
        let s1 = (if audioContextRef s = None then s\<lparr>audioContextRef := Some (ctxInitial P)\<rparr> else s);
            s2 = (if audioContextRef s1 = Some suspended
                  then s1\<lparr>resumeCalls := resumeCalls s1 + 1\<rparr> else s1)
        in if nodeThrows P then Inl AudioError
           else Inr (s2\<lparr>tones := tones s2 @ [(freq, ty)]\<rparr>))"

subsection \<open>The breathing cycle\<close>

definition schedulePhase :: "timer \<Rightarrow> AppState \<Rightarrow> AppState" where
  "schedulePhase t s = (case addTimer t s of (i, s') \<Rightarrow> s'\<lparr>phaseTimeoutRef := Some i\<rparr>)"

definition startBreathingCycle :: "Platform \<Rightarrow> bool \<Rightarrow> int \<Rightarrow> AppState \<Rightarrow> error + AppState" where
  "startBreathingCycle P a h s =
     bindE (playBeep P 300 sine (s\<lparr>phase := Inhale\<rparr>))
       (\<lambda>s1. Inr (schedulePhase (Timeout ToHold a h (INHALE_TIME * 1000)) s1))"

definition timeoutCallback :: "Platform \<Rightarrow> stage \<Rightarrow> bool \<Rightarrow> int \<Rightarrow> AppState \<Rightarrow> error + AppState" where
  "timeoutCallback P st a h s =
     (if \<not> a then Inr s
      else case st of
        ToHold \<Rightarrow>
          bindE (playBeep P 440 sine (s\<lparr>phase := Hold\<rparr>))
            (\<lambda>s1. Inr (schedulePhase (Timeout ToExhale a h (h * 1000)) s1))
      | ToExhale \<Rightarrow>
          bindE (playBeep P 350 sine (s\<lparr>phase := Exhale\<rparr>))
            (\<lambda>s1. Inr (schedulePhase (Timeout ToInhale a h (EXHALE_TIME * 1000)) s1))
      | ToInhale \<Rightarrow> startBreathingCycle P a h s)"

subsection \<open>Handlers\<close>

definition resetSession :: "AppState \<Rightarrow> AppState" where
  "resetSession s =
     s\<lparr>timeLeft := INITIAL_TIME, phase := Ready, showCelebration := False, isActive := False\<rparr>"

definition handleStartPause :: "Platform \<Rightarrow> AppState \<Rightarrow> error + AppState" where
  "handleStartPause P s =
     (if audioContextRef s = None \<and> ctorThrows P then Inl AudioError
      else
        let s1 = (if audioContextRef s = None then s\<lparr>audioContextRef := Some (ctxInitial P)\<rparr> else s)
        in if \<not> isActive s1 \<and> timeLeft s1 = 0 then Inr (resetSession s1)
           else Inr (s1\<lparr>isActive := \<not> isActive s1\<rparr>))"

definition handleReset :: "AppState \<Rightarrow> AppState" where
  "handleReset s =
     (let s1 = s\<lparr>isActive := False, timeLeft := INITIAL_TIME, phase := Ready,
                 showCelebration := False\<rparr>;
          s2 = clearTimer (phaseTimeoutRef s1) s1
      in clearTimer (timerIntervalRef s2) s2)"

text \<open>\<open>handleComplete\<close> of a render whose \<open>totalSessions\<close> was \<open>cap\<close>.\<close>

definition handleComplete :: "Platform \<Rightarrow> jsnum \<Rightarrow> AppState \<Rightarrow> error + AppState" where
  "handleComplete P cap s =
     bindE (playBeep P 600 triangle (s\<lparr>isActive := False, phase := Complete, showCelebration := True\<rparr>))
       (\<lambda>s1. let newCount = jsAdd1 cap;
                 s2 = s1\<lparr>totalSessions := newCount\<rparr>
             in if setItemThrows P then Inl StorageError
                else Inr (s2\<lparr>storage := numberToStored newCount\<rparr>))"

text \<open>The click handler of the hold-duration button for \<open>sec\<close>.\<close>

definition holdClick :: "int \<Rightarrow> AppState \<Rightarrow> AppState" where
  "holdClick sec s = (if \<not> isActive s then s\<lparr>holdDuration := sec\<rparr> else s)"

subsection \<open>Effects\<close>

definition timerEffect :: "AppState \<Rightarrow> AppState" where
  "timerEffect s =
     (if isActive s \<and> timeLeft s > 0
      then (case addTimer (Interval (totalSessions s)) s of
              (i, s') \<Rightarrow> s'\<lparr>timerIntervalRef := Some i\<rparr>)
      else clearTimer (timerIntervalRef s) s)"

definition timerEffectCleanup :: "AppState \<Rightarrow> AppState" where
  "timerEffectCleanup s = clearTimer (timerIntervalRef s) s"

definition phaseEffect :: "Platform \<Rightarrow> AppState \<Rightarrow> error + AppState" where
  "phaseEffect P s =
     (if isActive s \<and> phase s = Ready then startBreathingCycle P (isActive s) (holdDuration s) s
      else if \<not> isActive s then Inr (clearTimer (phaseTimeoutRef s) s)
      else Inr s)"

text \<open>
  A render after the state went from \<open>old\<close> to \<open>new\<close>: an effect runs again when one
  of its dependencies changed, its cleanup first. The timer effect depends on
  \<open>isActive\<close> and \<open>timeLeft\<close>, the breathing-cycle effect on \<open>isActive\<close>.
\<close>

definition commit :: "Platform \<Rightarrow> AppState \<Rightarrow> AppState \<Rightarrow> error + AppState" where
  "commit P old new =
     (let s1 = (if isActive old \<noteq> isActive new \<or> timeLeft old \<noteq> timeLeft new
                then timerEffect (timerEffectCleanup new) else new)
      in if isActive old \<noteq> isActive new then phaseEffect P s1 else Inr s1)"

text \<open>The first render: every effect runs once, in the order of the source.\<close>

definition mount :: "Platform \<Rightarrow> stored \<Rightarrow> error + AppState" where
  "mount P st = phaseEffect P (timerEffect (initEffect (initialState st)))"

subsection \<open>Timer callbacks and events\<close>

definition tickCallback :: "Platform \<Rightarrow> jsnum \<Rightarrow> AppState \<Rightarrow> error + AppState" where
  "tickCallback P cap s =
     (if timeLeft s \<le> 1
      then bindE (handleComplete P cap s) (\<lambda>s1. Inr (s1\<lparr>timeLeft := 0\<rparr>))
      else Inr (s\<lparr>timeLeft := timeLeft s - 1\<rparr>))"

text \<open>
  The platform fires the timer with id \<open>i\<close>, if it is live. A timeout is gone once it
  fires; an interval stays until it is cleared.
\<close>

definition fire :: "Platform \<Rightarrow> nat \<Rightarrow> AppState \<Rightarrow> error + AppState" where
  "fire P i s =
     (case timers s i of
        None \<Rightarrow> Inr s
      | Some (Interval cap) \<Rightarrow> bindE (tickCallback P cap s) (commit P s)
      | Some (Timeout st a h d) \<Rightarrow>
          bindE (timeoutCallback P st a h (s\<lparr>timers := (timers s)(i := None)\<rparr>)) (commit P s))"

text \<open>
  An event is a click or the firing of a timer. It runs as a whole: the handler or
  callback, then the render with its effects, before the next event begins. Events that
  would interleave with a render whose effects have not run yet are outside this model.
\<close>

datatype event = StartPause | Reset | Done | SelectHold int | Fire nat

definition step :: "Platform \<Rightarrow> event \<Rightarrow> AppState \<Rightarrow> error + AppState" where
  "step P ev s =
     (case ev of
        StartPause \<Rightarrow> bindE (handleStartPause P s) (commit P s)
      | Reset \<Rightarrow> commit P s (handleReset s)
      | Done \<Rightarrow> commit P s (resetSession s)
      | SelectHold sec \<Rightarrow> commit P s (holdClick sec s)
      | Fire i \<Rightarrow> fire P i s)"

text \<open>
  What the screen offers: the Done button exists while the celebration shows, a
  hold-duration button exists for each value of \<open>holdOptions\<close> and is disabled while
  the session is active.
\<close>

definition offered :: "event \<Rightarrow> AppState \<Rightarrow> bool" where
  "offered ev s =
     (case ev of
        Done \<Rightarrow> showCelebration s
      | SelectHold sec \<Rightarrow> sec \<in> set holdOptions \<and> \<not> isActive s
      | _ \<Rightarrow> True)"

fun run :: "Platform \<Rightarrow> event list \<Rightarrow> AppState \<Rightarrow> error + AppState" where
  "run P [] s = Inr s"
| "run P (ev # evs) s = bindE (step P ev s) (run P evs)"

text \<open>The clock tick: the platform fires the interval the ref holds.\<close>

definition clockTick :: "Platform \<Rightarrow> AppState \<Rightarrow> error + AppState" where
  "clockTick P s = (case timerIntervalRef s of None \<Rightarrow> Inr s | Some i \<Rightarrow> fire P i s)"

fun runClock :: "Platform \<Rightarrow> nat \<Rightarrow> AppState \<Rightarrow> error + AppState" where
  "runClock P 0 s = Inr s"
| "runClock P (Suc n) s = bindE (clockTick P s) (runClock P n)"


subsection \<open>Invariant of the states between events\<close>

text \<open>
  Auxiliary notions for the proofs. For the timeout of a stage: the phase that shows
  while it is pending, the delay it is scheduled with, the stage its callback schedules
  and the tone its callback plays.
\<close>

fun stagePhase :: "stage \<Rightarrow> BreathPhase" where
  "stagePhase ToHold = Inhale" | "stagePhase ToExhale = Hold" | "stagePhase ToInhale = Exhale"

fun stageDelay :: "stage \<Rightarrow> int \<Rightarrow> int" where
  "stageDelay ToHold h = INHALE_TIME * 1000"
| "stageDelay ToExhale h = h * 1000"
| "stageDelay ToInhale h = EXHALE_TIME * 1000"

fun nextStage :: "stage \<Rightarrow> stage" where
  "nextStage ToHold = ToExhale" | "nextStage ToExhale = ToInhale" | "nextStage ToInhale = ToHold"

fun stageTone :: "stage \<Rightarrow> int" where
  "stageTone ToHold = 440" | "stageTone ToExhale = 350" | "stageTone ToInhale = 300"

text \<open>The state after a tone that played, and after the lazy creation of the audio context.\<close>

definition beeped :: "Platform \<Rightarrow> int \<Rightarrow> OscillatorType \<Rightarrow> AppState \<Rightarrow> AppState" where
  "beeped P freq ty s =
     (let s1 = (if audioContextRef s = None then s\<lparr>audioContextRef := Some (ctxInitial P)\<rparr> else s);
          s2 = (if audioContextRef s1 = Some suspended
                then s1\<lparr>resumeCalls := resumeCalls s1 + 1\<rparr> else s1)
      in s2\<lparr>tones := tones s2 @ [(freq, ty)]\<rparr>)"

definition withContext :: "Platform \<Rightarrow> AppState \<Rightarrow> AppState" where
  "withContext P s = (if audioContextRef s = None then s\<lparr>audioContextRef := Some (ctxInitial P)\<rparr> else s)"

text \<open>
  A state is settled when it is as the effects of a render leave it: every live timer
  is the one its ref holds and belongs to an active session; the interval is live exactly
  while the session is active with time left, and its closure holds the current counter;
  a live timeout was created with \<open>isActive = true\<close> and the current hold duration, for
  the phase that shows; timer ids are positive and below the next fresh id; the audio
  context exists once the session has been started; \<open>timeLeft\<close> is between 0 and
  \<open>INITIAL_TIME\<close>; and the hold duration is one of the offered values.
\<close>

definition timerOk :: "AppState \<Rightarrow> nat \<Rightarrow> timer \<Rightarrow> bool" where
  "timerOk s i t =
     (0 < i \<and> i < nextTimerId s \<and> isActive s \<and>
      (case t of
         Interval cap \<Rightarrow> timerIntervalRef s = Some i \<and> phaseTimeoutRef s \<noteq> Some i \<and>
            cap = totalSessions s \<and> 0 < timeLeft s
       | Timeout st a h d \<Rightarrow> phaseTimeoutRef s = Some i \<and> timerIntervalRef s \<noteq> Some i \<and>
            a \<and> h = holdDuration s \<and> phase s = stagePhase st \<and> d = stageDelay st h))"

definition settled :: "AppState \<Rightarrow> bool" where
  "settled s =
     ((\<forall>i t. timers s i = Some t \<longrightarrow> timerOk s i t) \<and>
      (isActive s \<and> 0 < timeLeft s \<longrightarrow>
         (\<exists>i. timerIntervalRef s = Some i \<and> timers s i = Some (Interval (totalSessions s)))) \<and>
      (\<forall>i. timerIntervalRef s = Some i \<or> phaseTimeoutRef s = Some i \<longrightarrow> i < nextTimerId s) \<and>
      (audioContextRef s = None \<longrightarrow> \<not> isActive s \<and> timeLeft s = INITIAL_TIME) \<and>
      0 \<le> timeLeft s \<and> timeLeft s \<le> INITIAL_TIME \<and>
      holdDuration s \<in> set holdOptions \<and> 0 < nextTimerId s)"

text \<open>
  The states the screen can be in: the first render, then any event the screen offers or
  any timer the platform fires, as long as no exception escapes.
\<close>

inductive reachable :: "Platform \<Rightarrow> stored \<Rightarrow> AppState \<Rightarrow> bool" for P st where
  mounted: "mount P st = Inr s \<Longrightarrow> reachable P st s"
| stepped: "reachable P st s \<Longrightarrow> offered ev s \<Longrightarrow> step P ev s = Inr s' \<Longrightarrow> reachable P st s'"


subsection \<open>Example platforms and states\<close>

definition workingAudio :: Platform where
  "workingAudio =
     \<lparr>ctorThrows = False, nodeThrows = False, ctxInitial = running, setItemThrows = False\<rparr>"

text \<open>The state after the first press of Start on a fresh screen with working audio.\<close>

definition midInhale :: AppState where
  "midInhale =
     \<lparr>timeLeft = 300, isActive = True, phase = Inhale, holdDuration = 1,
      totalSessions = Num 0, showCelebration = False, audioContextRef = Some running,
      timerIntervalRef = Some 1, phaseTimeoutRef = Some 2,
      timers = [1 \<mapsto> Interval (Num 0), 2 \<mapsto> Timeout ToHold True 1 4000],
      nextTimerId = 3, storage = Absent, tones = [(300, sine)], resumeCalls = 0\<rparr>"

text \<open>
  The state \<open>k\<close> clock ticks after \<open>midInhale\<close> when no phase timeout has fired in
  between, and the state after the 300th tick: the session has run to its end and the
  celebration shows.
\<close>

definition ticked :: "nat \<Rightarrow> AppState" where
  "ticked k =
     \<lparr>timeLeft = 300 - int k, isActive = True, phase = Inhale, holdDuration = 1,
      totalSessions = Num 0, showCelebration = False, audioContextRef = Some running,
      timerIntervalRef = Some (k + 2), phaseTimeoutRef = Some 2,
      timers = [2 \<mapsto> Timeout ToHold True 1 4000, k + 2 \<mapsto> Interval (Num 0)],
      nextTimerId = k + 3, storage = Absent, tones = [(300, sine)], resumeCalls = 0\<rparr>"

definition finished :: AppState where
  "finished =
     \<lparr>timeLeft = 0, isActive = False, phase = Complete, holdDuration = 1,
      totalSessions = Num 1, showCelebration = True, audioContextRef = Some running,
      timerIntervalRef = Some 301, phaseTimeoutRef = Some 2, timers = Map.empty,
      nextTimerId = 302, storage = Text ''1'', tones = [(300, sine), (600, triangle)],
      resumeCalls = 0\<rparr>"

text \<open>
  A platform without usable audio, and one whose policy starts every audio context
  suspended.
\<close>

definition brokenAudio :: Platform where
  "brokenAudio =
     \<lparr>ctorThrows = True, nodeThrows = True, ctxInitial = running, setItemThrows = False\<rparr>"


text \<open>A platform with working audio whose store refuses every write.\<close>

definition storeFull :: Platform where
  "storeFull =
     \<lparr>ctorThrows = False, nodeThrows = False, ctxInitial = running, setItemThrows = True\<rparr>"

text \<open>The state one clock tick after \<open>midInhale\<close>.\<close>

definition afterTick :: AppState where
  "afterTick =
     \<lparr>timeLeft = 299, isActive = True, phase = Inhale, holdDuration = 1,
      totalSessions = Num 0, showCelebration = False, audioContextRef = Some running,
      timerIntervalRef = Some 3, phaseTimeoutRef = Some 2,
      timers = [2 \<mapsto> Timeout ToHold True 1 4000, 3 \<mapsto> Interval (Num 0)],
      nextTimerId = 4, storage = Absent, tones = [(300, sine)], resumeCalls = 0\<rparr>"


text \<open>The state after the first press of Start when the store held the text \<open>abc\<close>.\<close>

definition nanInhale :: AppState where
  "nanInhale =
     \<lparr>timeLeft = 300, isActive = True, phase = Inhale, holdDuration = 1,
      totalSessions = NaN, showCelebration = False, audioContextRef = Some running,
      timerIntervalRef = Some 1, phaseTimeoutRef = Some 2,
      timers = [1 \<mapsto> Interval NaN, 2 \<mapsto> Timeout ToHold True 1 4000],
      nextTimerId = 3, storage = Text ''abc'', tones = [(300, sine)], resumeCalls = 0\<rparr>"

section \<open>Properties\<close>

subsection \<open>Decimal strings\<close>

lemma isDigit_digitChar: "d < 10 \<Longrightarrow> isDigit (digitChar d)"
  by (simp add: isDigit_def digitChar_def)

lemma digitVal_digitChar: "d < 10 \<Longrightarrow> digitVal (digitChar d) = d"
  by (simp add: digitVal_def digitChar_def)

lemma showNat_digits: "\<forall>c \<in> set (showNat n). isDigit c"
proof (induction n rule: showNat.induct)
  case (1 n)
  show ?case
  proof (cases "n < 10")
    case True
    then show ?thesis by (subst showNat.simps) (simp add: isDigit_digitChar)
  next
    case False
    with 1 show ?thesis by (subst showNat.simps) (simp add: isDigit_digitChar)
  qed
qed

lemma showNat_nonempty: "showNat n \<noteq> []"
  by (subst showNat.simps) simp

lemma digitsValue_append: "digitsValue acc (xs @ ys) = digitsValue (digitsValue acc xs) ys"
  by (induction xs arbitrary: acc) simp_all

lemma digitsValue_showNat: "digitsValue acc (showNat n) = acc * 10 ^ length (showNat n) + n"
proof (induction n arbitrary: acc rule: showNat.induct)
  case (1 n)
  show ?case
  proof (cases "n < 10")
    case True
    then show ?thesis by (subst (1 2) showNat.simps) (simp add: digitVal_digitChar)
  next
    case False
    have "digitsValue acc (showNat n) = digitsValue (digitsValue acc (showNat (n div 10))) [digitChar (n mod 10)]"
      using False by (subst showNat.simps) (simp add: digitsValue_append)
    also have "\<dots> = (acc * 10 ^ length (showNat (n div 10)) + n div 10) * 10 + n mod 10"
      using 1 False by (simp add: digitVal_digitChar)
    also have "\<dots> = acc * 10 ^ length (showNat n) + n"
      using False by (subst (2) showNat.simps) (simp add: algebra_simps)
    finally show ?thesis .
  qed
qed

lemma not_white_digit: "isDigit c \<Longrightarrow> \<not> isWhite c"
  by (auto simp: isDigit_def isWhite_def)

lemma showNat_hd: "\<exists>c cs. showNat n = c # cs \<and> isDigit c"
  using showNat_digits[of n] showNat_nonempty[of n] by (cases "showNat n") auto

lemma digit_not_sign: "isDigit c \<Longrightarrow> c \<noteq> CHR ''+'' \<and> c \<noteq> CHR ''-''"
  by (auto simp: isDigit_def)

lemma minus_not_white: "\<not> isWhite CHR ''-''"
  by (simp add: isWhite_def)

lemma takeWhile_showNat: "(rest = [] \<or> \<not> isDigit (hd rest)) \<Longrightarrow> takeWhile isDigit (showNat n @ rest) = showNat n"
  using showNat_digits[of n] by (cases rest) (auto simp: takeWhile_append2 takeWhile_eq_all_conv)

lemma parseInt10_showInt:
  assumes "rest = [] \<or> \<not> isDigit (hd rest)"
  shows "parseInt10 (showInt n @ rest) = toNumber n"
proof (cases "n < 0")
  case True
  have "parseInt10 (showInt n @ rest) = toNumber (- int (digitsValue 0 (showNat (nat (- n)))))"
    using True showNat_nonempty[of "nat (- n)"] takeWhile_showNat[OF assms, of "nat (- n)"]
    by (simp add: parseInt10_def showInt_def minus_not_white Let_def)
  then show ?thesis using True by (simp add: digitsValue_showNat)
next
  case False
  obtain c cs where cs: "showNat (nat n) = c # cs" "isDigit c" using showNat_hd by blast
  have "parseInt10 (showInt n @ rest) = toNumber (int (digitsValue 0 (showNat (nat n))))"
    using False takeWhile_showNat[OF assms, of "nat n"] cs not_white_digit[OF cs(2)] digit_not_sign[OF cs(2)]
    by (simp add: parseInt10_def showInt_def Let_def)
  then show ?thesis using False by (simp add: digitsValue_showNat)
qed

subsection \<open>Effects, handlers and events on settled states\<close>

lemma settled_inactive_timers: "settled s \<Longrightarrow> \<not> isActive s \<Longrightarrow> timers s = Map.empty"
  by (rule ext) (auto simp: settled_def timerOk_def)

lemma clearTimer_timers:
  "timers (clearTimer r s) i = (if r = Some i \<and> i \<noteq> 0 then None else timers s i)"
  by (auto simp: clearTimer_def split: option.splits)

lemma clearTimer_fields:
  "timeLeft (clearTimer r s) = timeLeft s"
  "isActive (clearTimer r s) = isActive s"
  "phase (clearTimer r s) = phase s"
  "holdDuration (clearTimer r s) = holdDuration s"
  "totalSessions (clearTimer r s) = totalSessions s"
  "showCelebration (clearTimer r s) = showCelebration s"
  "audioContextRef (clearTimer r s) = audioContextRef s"
  "timerIntervalRef (clearTimer r s) = timerIntervalRef s"
  "phaseTimeoutRef (clearTimer r s) = phaseTimeoutRef s"
  "nextTimerId (clearTimer r s) = nextTimerId s"
  "storage (clearTimer r s) = storage s"
  "tones (clearTimer r s) = tones s"
  "resumeCalls (clearTimer r s) = resumeCalls s"
  by (simp_all add: clearTimer_def split: option.splits)

lemma handleReset_timers:
  assumes "settled s"
  shows "timers (handleReset s) = Map.empty"
proof (rule ext)
  fix i
  show "timers (handleReset s) i = None"
  proof (cases "timers s i")
    case None
    then show ?thesis by (simp add: handleReset_def clearTimer_timers clearTimer_fields Let_def)
  next
    case (Some t)
    with assms have "timerOk s i t" by (simp add: settled_def)
    then show ?thesis
      by (cases t) (simp_all add: timerOk_def handleReset_def clearTimer_timers clearTimer_fields Let_def)
  qed
qed

lemma clearTimer_empty: "timers s = Map.empty \<Longrightarrow> clearTimer r s = s"
  by (auto simp: clearTimer_def split: option.splits)

lemma handleReset_eq:
  assumes "settled s"
  shows "handleReset s = s\<lparr>isActive := False, timeLeft := INITIAL_TIME, phase := Ready, showCelebration := False, timers := Map.empty\<rparr>"
proof -
  have "handleReset s = (handleReset s)\<lparr>timers := Map.empty\<rparr>"
    using handleReset_timers[OF assms] by simp
  also have "\<dots> = s\<lparr>isActive := False, timeLeft := INITIAL_TIME, phase := Ready, showCelebration := False, timers := Map.empty\<rparr>"
    by (simp add: handleReset_def clearTimer_def Let_def split: option.splits)
  finally show ?thesis .
qed

lemma commit_inactive_empty:
  assumes "\<not> isActive new" "timers new = Map.empty"
  shows "commit P old new = Inr new"
  using assms
  by (simp add: commit_def timerEffect_def timerEffectCleanup_def phaseEffect_def clearTimer_empty clearTimer_fields)

lemma step_Reset:
  assumes "settled s"
  shows "step P Reset s = Inr (s\<lparr>isActive := False, timeLeft := INITIAL_TIME, phase := Ready, showCelebration := False, timers := Map.empty\<rparr>)"
  by (simp add: step_def handleReset_eq[OF assms] commit_inactive_empty)

lemma playBeep_eq:
  "playBeep P f ty s =
     (if (audioContextRef s = None \<and> ctorThrows P) \<or> nodeThrows P then Inl AudioError
      else Inr (beeped P f ty s))"
  by (simp add: playBeep_def beeped_def Let_def)

lemma beeped_fields:
  "timeLeft (beeped P f ty s) = timeLeft s"
  "isActive (beeped P f ty s) = isActive s"
  "phase (beeped P f ty s) = phase s"
  "holdDuration (beeped P f ty s) = holdDuration s"
  "totalSessions (beeped P f ty s) = totalSessions s"
  "showCelebration (beeped P f ty s) = showCelebration s"
  "timerIntervalRef (beeped P f ty s) = timerIntervalRef s"
  "phaseTimeoutRef (beeped P f ty s) = phaseTimeoutRef s"
  "timers (beeped P f ty s) = timers s"
  "nextTimerId (beeped P f ty s) = nextTimerId s"
  "storage (beeped P f ty s) = storage s"
  "tones (beeped P f ty s) = tones s @ [(f, ty)]"
  "audioContextRef (beeped P f ty s) \<noteq> None"
  by (simp_all add: beeped_def Let_def)

lemma schedulePhase_fields:
  "timeLeft (schedulePhase t s) = timeLeft s"
  "isActive (schedulePhase t s) = isActive s"
  "phase (schedulePhase t s) = phase s"
  "holdDuration (schedulePhase t s) = holdDuration s"
  "totalSessions (schedulePhase t s) = totalSessions s"
  "showCelebration (schedulePhase t s) = showCelebration s"
  "audioContextRef (schedulePhase t s) = audioContextRef s"
  "timerIntervalRef (schedulePhase t s) = timerIntervalRef s"
  "phaseTimeoutRef (schedulePhase t s) = Some (nextTimerId s)"
  "timers (schedulePhase t s) = (timers s)(nextTimerId s \<mapsto> t)"
  "nextTimerId (schedulePhase t s) = nextTimerId s + 1"
  "storage (schedulePhase t s) = storage s"
  "tones (schedulePhase t s) = tones s"
  "resumeCalls (schedulePhase t s) = resumeCalls s"
  by (simp_all add: schedulePhase_def addTimer_def)

lemma timerEffect_fields:
  "timeLeft (timerEffect s) = timeLeft s"
  "isActive (timerEffect s) = isActive s"
  "phase (timerEffect s) = phase s"
  "holdDuration (timerEffect s) = holdDuration s"
  "totalSessions (timerEffect s) = totalSessions s"
  "showCelebration (timerEffect s) = showCelebration s"
  "audioContextRef (timerEffect s) = audioContextRef s"
  "phaseTimeoutRef (timerEffect s) = phaseTimeoutRef s"
  "storage (timerEffect s) = storage s"
  "tones (timerEffect s) = tones s"
  "resumeCalls (timerEffect s) = resumeCalls s"
  "timerIntervalRef (timerEffect s) =
     (if isActive s \<and> 0 < timeLeft s then Some (nextTimerId s) else timerIntervalRef s)"
  "nextTimerId (timerEffect s) =
     (if isActive s \<and> 0 < timeLeft s then nextTimerId s + 1 else nextTimerId s)"
  "timers (timerEffect s) i =
     (if isActive s \<and> 0 < timeLeft s
      then (if i = nextTimerId s then Some (Interval (totalSessions s)) else timers s i)
      else (if timerIntervalRef s = Some i \<and> i \<noteq> 0 then None else timers s i))"
  by (simp_all add: timerEffect_def addTimer_def clearTimer_fields clearTimer_timers)

lemma timers_upd_same: "timers s = m \<Longrightarrow> s\<lparr>timers := m\<rparr> = s"
  by (cases s) simp

lemma clear_both_empty:
  assumes "settled s"
  shows "(\<lambda>i. if phaseTimeoutRef s = Some i \<and> i \<noteq> 0 then None
             else if timerIntervalRef s = Some i \<and> i \<noteq> 0 then None else timers s i) = Map.empty"
proof (rule ext)
  fix i
  show "(if phaseTimeoutRef s = Some i \<and> i \<noteq> 0 then None
         else if timerIntervalRef s = Some i \<and> i \<noteq> 0 then None else timers s i) = None"
  proof (cases "timers s i")
    case None then show ?thesis by simp
  next
    case (Some t)
    with assms have "timerOk s i t" by (simp add: settled_def)
    then show ?thesis by (cases t) (simp_all add: timerOk_def)
  qed
qed

lemma commit_deactivate:
  assumes st: "settled old" and na: "\<not> isActive new"
    and same: "timers new = timers old" "timerIntervalRef new = timerIntervalRef old"
       "phaseTimeoutRef new = phaseTimeoutRef old"
  shows "commit P old new = Inr (new\<lparr>timers := Map.empty\<rparr>)"
proof (cases "isActive old")
  case False
  with st have "timers old = Map.empty" by (simp add: settled_inactive_timers)
  with same have e: "timers new = Map.empty" by simp
  then have "new\<lparr>timers := Map.empty\<rparr> = new" by (cases new) simp
  with commit_inactive_empty[OF na e] show ?thesis by simp
next
  case True
  let ?c = "clearTimer (phaseTimeoutRef new) (timerEffect (timerEffectCleanup new))"
  have c: "commit P old new = Inr ?c"
    using True na by (simp add: commit_def phaseEffect_def timerEffect_fields timerEffectCleanup_def clearTimer_fields)
  have "timers ?c = Map.empty"
  proof (rule ext)
    fix i
    from clear_both_empty[OF st] have "(if phaseTimeoutRef old = Some i \<and> i \<noteq> 0 then None
         else if timerIntervalRef old = Some i \<and> i \<noteq> 0 then None else timers old i) = None"
      by (rule fun_cong)
    then show "timers ?c i = None"
      using na same
      by (simp add: clearTimer_timers clearTimer_fields timerEffect_fields timerEffectCleanup_def split: if_splits)
  qed
  moreover have "?c\<lparr>timers := Map.empty\<rparr> = new\<lparr>timers := Map.empty\<rparr>"
    using na by (simp add: clearTimer_def timerEffect_def timerEffectCleanup_def split: option.splits)
  ultimately have "?c = new\<lparr>timers := Map.empty\<rparr>" using timers_upd_same[of ?c Map.empty] by simp
  with c show ?thesis by simp
qed

lemma settled_ctx: "settled s \<Longrightarrow> isActive s \<or> timeLeft s \<noteq> INITIAL_TIME \<Longrightarrow> audioContextRef s \<noteq> None"
  by (auto simp: settled_def)

lemma step_Done:
  assumes "settled s"
  shows "step P Done s = Inr ((resetSession s)\<lparr>timers := Map.empty\<rparr>)"
  unfolding step_def event.case
  by (rule commit_deactivate[OF assms]) (simp_all add: resetSession_def)

lemma step_pause:
  assumes "settled s" "isActive s"
  shows "step P StartPause s = Inr (s\<lparr>isActive := False, timers := Map.empty\<rparr>)"
proof -
  have "handleStartPause P s = Inr (s\<lparr>isActive := False\<rparr>)"
    using settled_ctx[OF assms(1)] assms(2) by (auto simp: handleStartPause_def)
  moreover have "commit P s (s\<lparr>isActive := False\<rparr>) = Inr (s\<lparr>isActive := False, timers := Map.empty\<rparr>)"
    using commit_deactivate[OF assms(1), of "s\<lparr>isActive := False\<rparr>" P] by simp
  ultimately show ?thesis by (simp add: step_def bindE_def)
qed

lemma step_finished:
  assumes "settled s" "\<not> isActive s" "timeLeft s = 0"
  shows "step P StartPause s = Inr (resetSession s)"
proof -
  have "handleStartPause P s = Inr (resetSession s)"
    using settled_ctx[OF assms(1)] assms(2,3) by (auto simp: handleStartPause_def INITIAL_TIME_def)
  moreover have "commit P s (resetSession s) = Inr ((resetSession s)\<lparr>timers := Map.empty\<rparr>)"
    by (rule commit_deactivate[OF assms(1)]) (simp_all add: resetSession_def)
  moreover have "timers (resetSession s) = Map.empty"
    using settled_inactive_timers[OF assms(1,2)] by (simp add: resetSession_def)
  ultimately show ?thesis by (simp add: step_def bindE_def timers_upd_same)
qed

lemma withContext_fields:
  "timeLeft (withContext P s) = timeLeft s"
  "isActive (withContext P s) = isActive s"
  "phase (withContext P s) = phase s"
  "holdDuration (withContext P s) = holdDuration s"
  "totalSessions (withContext P s) = totalSessions s"
  "showCelebration (withContext P s) = showCelebration s"
  "timerIntervalRef (withContext P s) = timerIntervalRef s"
  "phaseTimeoutRef (withContext P s) = phaseTimeoutRef s"
  "timers (withContext P s) = timers s"
  "nextTimerId (withContext P s) = nextTimerId s"
  "storage (withContext P s) = storage s"
  "tones (withContext P s) = tones s"
  "resumeCalls (withContext P s) = resumeCalls s"
  "audioContextRef (withContext P s) \<noteq> None"
  by (simp_all add: withContext_def)

lemma step_start:
  assumes "settled s" "\<not> isActive s" "timeLeft s \<noteq> 0"
  shows "step P StartPause s =
     (if audioContextRef s = None \<and> ctorThrows P then Inl AudioError
      else if phase s \<noteq> Ready then Inr (timerEffect ((withContext P s)\<lparr>isActive := True\<rparr>))
      else if nodeThrows P then Inl AudioError
      else Inr (schedulePhase (Timeout ToHold True (holdDuration s) (INHALE_TIME * 1000))
             (beeped P 300 sine ((timerEffect ((withContext P s)\<lparr>isActive := True\<rparr>))\<lparr>phase := Inhale\<rparr>))))"
proof (cases "audioContextRef s = None \<and> ctorThrows P")
  case True
  then show ?thesis by (simp add: step_def handleStartPause_def bindE_def)
next
  case False
  let ?n = "(withContext P s)\<lparr>isActive := True\<rparr>"
  have h: "handleStartPause P s = Inr ?n"
    using False assms(2,3) by (auto simp: handleStartPause_def withContext_def)
  have e: "timers ?n = Map.empty"
    using settled_inactive_timers[OF assms(1,2)] by (simp add: withContext_fields)
  have cl: "timerEffectCleanup ?n = ?n"
    unfolding timerEffectCleanup_def using e by (rule clearTimer_empty)
  have c: "commit P s ?n = phaseEffect P (timerEffect ?n)"
    using assms(2) by (simp add: commit_def cl)
  have ctx: "audioContextRef ((timerEffect ?n)\<lparr>phase := Inhale\<rparr>) \<noteq> None"
    by (simp add: timerEffect_fields withContext_fields)
  have "step P StartPause s = phaseEffect P (timerEffect ?n)"
    by (simp add: step_def h bindE_def c)
  then show ?thesis
    using False ctx
    by (simp add: phaseEffect_def timerEffect_fields startBreathingCycle_def
        playBeep_eq withContext_fields bindE_def)
qed

lemma step_SelectHold:
  "step P (SelectHold sec) s = Inr (if isActive s then s else s\<lparr>holdDuration := sec\<rparr>)"
  by (simp add: step_def holdClick_def commit_def)

lemma fire_none: "timers s i = None \<Longrightarrow> fire P i s = Inr s"
  by (simp add: fire_def)

lemma settled_timer: "settled s \<Longrightarrow> timers s i = Some t \<Longrightarrow> timerOk s i t"
  by (simp add: settled_def)

lemma fire_tick:
  assumes "settled s" "timers s i = Some (Interval cap)" "1 < timeLeft s"
  shows "fire P i s = Inr (timerEffect (clearTimer (Some i) (s\<lparr>timeLeft := timeLeft s - 1\<rparr>)))"
  using settled_timer[OF assms(1,2)] assms(2,3)
  by (simp add: fire_def tickCallback_def bindE_def commit_def timerEffectCleanup_def timerOk_def)

lemma fire_complete:
  assumes "settled s" "timers s i = Some (Interval cap)" "timeLeft s \<le> 1"
  shows "fire P i s =
     (if nodeThrows P then Inl AudioError
      else if setItemThrows P then Inl StorageError
      else Inr ((beeped P 600 triangle (s\<lparr>isActive := False, phase := Complete, showCelebration := True\<rparr>))
             \<lparr>totalSessions := jsAdd1 (totalSessions s),
              storage := numberToStored (jsAdd1 (totalSessions s)),
              timeLeft := 0, timers := Map.empty\<rparr>))"
proof -
  from settled_timer[OF assms(1,2)] have ok: "isActive s" "cap = totalSessions s"
    by (simp_all add: timerOk_def)
  from settled_ctx[OF assms(1)] ok have ctx: "audioContextRef s \<noteq> None" by simp
  let ?b = "beeped P 600 triangle (s\<lparr>isActive := False, phase := Complete, showCelebration := True\<rparr>)"
  let ?n = "?b\<lparr>totalSessions := jsAdd1 (totalSessions s),
              storage := numberToStored (jsAdd1 (totalSessions s)), timeLeft := 0\<rparr>"
  have t: "tickCallback P cap s =
      (if nodeThrows P then Inl AudioError else if setItemThrows P then Inl StorageError else Inr ?n)"
    using assms(3) ctx ok by (auto simp: tickCallback_def handleComplete_def playBeep_eq bindE_def Let_def)
  have "commit P s ?n = Inr (?n\<lparr>timers := Map.empty\<rparr>)"
    by (rule commit_deactivate[OF assms(1)]) (simp_all add: beeped_fields)
  with t show ?thesis using assms(2) by (simp add: fire_def bindE_def)
qed

lemma fire_timeout:
  assumes "settled s" "timers s i = Some (Timeout st a h d)"
  shows "fire P i s =
     (if nodeThrows P then Inl AudioError
      else Inr (schedulePhase (Timeout (nextStage st) True (holdDuration s) (stageDelay (nextStage st) (holdDuration s)))
             (beeped P (stageTone st) sine
                (s\<lparr>timers := (timers s)(i := None), phase := stagePhase (nextStage st)\<rparr>))))"
proof -
  from settled_timer[OF assms(1,2)] have ok: "isActive s" "a" "h = holdDuration s"
    by (simp_all add: timerOk_def)
  from settled_ctx[OF assms(1)] ok have ctx: "audioContextRef s \<noteq> None" by simp
  let ?r = "schedulePhase (Timeout (nextStage st) True (holdDuration s) (stageDelay (nextStage st) (holdDuration s)))
             (beeped P (stageTone st) sine
                (s\<lparr>timers := (timers s)(i := None), phase := stagePhase (nextStage st)\<rparr>))"
  have cb: "timeoutCallback P st a h (s\<lparr>timers := (timers s)(i := None)\<rparr>) =
      (if nodeThrows P then Inl AudioError else Inr ?r)"
    using ok ctx
    by (cases st) (auto simp: timeoutCallback_def startBreathingCycle_def playBeep_eq bindE_def)
  have "commit P s ?r = Inr ?r"
    by (simp add: commit_def schedulePhase_fields beeped_fields)
  with cb show ?thesis using assms(2) by (simp add: fire_def bindE_def)
qed

lemma settled_inactiveI:
  assumes "\<not> isActive s'" "timers s' = Map.empty"
    "\<forall>i. timerIntervalRef s' = Some i \<or> phaseTimeoutRef s' = Some i \<longrightarrow> i < nextTimerId s'"
    "audioContextRef s' = None \<longrightarrow> timeLeft s' = INITIAL_TIME"
    "0 \<le> timeLeft s'" "timeLeft s' \<le> INITIAL_TIME" "holdDuration s' \<in> set holdOptions"
    "0 < nextTimerId s'"
  shows "settled s'"
  using assms by (simp add: settled_def)

lemma settled_refs: "settled s \<Longrightarrow> \<forall>i. timerIntervalRef s = Some i \<or> phaseTimeoutRef s = Some i \<longrightarrow> i < nextTimerId s"
  by (simp add: settled_def)

lemma settled_range: "settled s \<Longrightarrow> 0 \<le> timeLeft s \<and> timeLeft s \<le> INITIAL_TIME \<and> holdDuration s \<in> set holdOptions \<and> 0 < nextTimerId s"
  by (simp add: settled_def)

lemma settled_Reset:
  assumes "settled s"
  shows "settled (s\<lparr>isActive := False, timeLeft := INITIAL_TIME, phase := Ready, showCelebration := False, timers := Map.empty\<rparr>)"
  using settled_refs[OF assms] settled_range[OF assms]
  by (intro settled_inactiveI) (simp_all add: INITIAL_TIME_def)

lemma settled_Done:
  assumes "settled s"
  shows "settled ((resetSession s)\<lparr>timers := Map.empty\<rparr>)"
  using settled_refs[OF assms] settled_range[OF assms]
  by (intro settled_inactiveI) (simp_all add: INITIAL_TIME_def resetSession_def)

lemma settled_pause:
  assumes "settled s" "isActive s"
  shows "settled (s\<lparr>isActive := False, timers := Map.empty\<rparr>)"
  using settled_refs[OF assms(1)] settled_range[OF assms(1)] settled_ctx[OF assms(1)] assms(2)
  by (intro settled_inactiveI) (auto simp: INITIAL_TIME_def)

lemma settled_complete:
  assumes "settled s" "isActive s"
  shows "settled ((beeped P 600 triangle (s\<lparr>isActive := False, phase := Complete, showCelebration := True\<rparr>))
             \<lparr>totalSessions := jsAdd1 (totalSessions s),
              storage := numberToStored (jsAdd1 (totalSessions s)),
              timeLeft := 0, timers := Map.empty\<rparr>)"
  using settled_refs[OF assms(1)] settled_range[OF assms(1)]
  by (intro settled_inactiveI) (simp_all add: INITIAL_TIME_def beeped_fields)

lemma settled_SelectHold:
  assumes "settled s" "sec \<in> set holdOptions"
  shows "settled (if isActive s then s else s\<lparr>holdDuration := sec\<rparr>)"
proof (cases "isActive s")
  case True with assms show ?thesis by simp
next
  case False
  have "settled (s\<lparr>holdDuration := sec\<rparr>)"
    using settled_refs[OF assms(1)] settled_range[OF assms(1)] False assms
      settled_inactive_timers[OF assms(1) False]
    by (intro settled_inactiveI) (simp_all add: settled_def)
  with False show ?thesis by simp
qed

lemma settled_resume:
  assumes "settled s" "\<not> isActive s" "timeLeft s \<noteq> 0"
  shows "settled (timerEffect ((withContext P s)\<lparr>isActive := True\<rparr>))"
  using settled_refs[OF assms(1)] settled_range[OF assms(1)] assms(2,3)
      settled_inactive_timers[OF assms(1,2)]
  unfolding settled_def timerOk_def
  by (auto simp: timerEffect_fields withContext_fields split: if_splits)

lemma settled_start:
  assumes "settled s" "\<not> isActive s" "timeLeft s \<noteq> 0" "phase s = Ready"
  shows "settled (schedulePhase (Timeout ToHold True (holdDuration s) (INHALE_TIME * 1000))
             (beeped P 300 sine ((timerEffect ((withContext P s)\<lparr>isActive := True\<rparr>))\<lparr>phase := Inhale\<rparr>)))"
  using settled_refs[OF assms(1)] settled_range[OF assms(1)] assms(2,3)
      settled_inactive_timers[OF assms(1,2)]
  unfolding settled_def timerOk_def
  by (auto simp: timerEffect_fields withContext_fields schedulePhase_fields beeped_fields split: if_splits)

lemma settled_tick:
  assumes "settled s" "timers s i = Some (Interval cap)" "1 < timeLeft s"
  shows "settled (timerEffect (clearTimer (Some i) (s\<lparr>timeLeft := timeLeft s - 1\<rparr>)))"
proof -
  let ?s = "timerEffect (clearTimer (Some i) (s\<lparr>timeLeft := timeLeft s - 1\<rparr>))"
  from settled_timer[OF assms(1,2)] have ok: "isActive s" "timerIntervalRef s = Some i" "0 < i" "i < nextTimerId s"
    by (simp_all add: timerOk_def)
  have tab: "\<And>j. timers ?s j = (if j = nextTimerId s then Some (Interval (totalSessions s)) else if j = i then None else timers s j)"
    using ok assms(3) by (auto simp: timerEffect_fields clearTimer_fields clearTimer_timers)
  have "timerOk ?s j t" if "timers ?s j = Some t" for j t
  proof (cases "j = nextTimerId s")
    case True
    with that tab[of j] settled_refs[OF assms(1)] settled_range[OF assms(1)] ok assms(3) show ?thesis
      by (auto simp: timerOk_def timerEffect_fields clearTimer_fields)
  next
    case False
    with that tab[of j] have j: "j \<noteq> i" "timers s j = Some t" by (auto split: if_splits)
    from settled_timer[OF assms(1) j(2)] j(1) ok assms(3) show ?thesis
      by (cases t) (auto simp: timerOk_def timerEffect_fields clearTimer_fields)
  qed
  then show ?thesis
    using settled_refs[OF assms(1)] settled_range[OF assms(1)] settled_ctx[OF assms(1)] ok assms(3) tab
    by (auto simp: settled_def timerEffect_fields clearTimer_fields)
qed

lemma settled_timeout:
  assumes "settled s" "timers s i = Some (Timeout st a h d)"
  shows "settled (schedulePhase (Timeout (nextStage st) True (holdDuration s) (stageDelay (nextStage st) (holdDuration s)))
             (beeped P (stageTone st) sine
                (s\<lparr>timers := (timers s)(i := None), phase := stagePhase (nextStage st)\<rparr>)))"
proof -
  let ?s = "schedulePhase (Timeout (nextStage st) True (holdDuration s) (stageDelay (nextStage st) (holdDuration s)))
             (beeped P (stageTone st) sine
                (s\<lparr>timers := (timers s)(i := None), phase := stagePhase (nextStage st)\<rparr>))"
  from settled_timer[OF assms(1,2)] have ok: "isActive s" "phaseTimeoutRef s = Some i" "0 < i" "i < nextTimerId s"
     "timerIntervalRef s \<noteq> Some i"
    by (simp_all add: timerOk_def)
  have tab: "\<And>j. timers ?s j = (if j = nextTimerId s
       then Some (Timeout (nextStage st) True (holdDuration s) (stageDelay (nextStage st) (holdDuration s)))
       else if j = i then None else timers s j)"
    by (auto simp: schedulePhase_fields beeped_fields)
  have "timerOk ?s j t" if "timers ?s j = Some t" for j t
  proof (cases "j = nextTimerId s")
    case True
    with that tab[of j] settled_refs[OF assms(1)] settled_range[OF assms(1)] ok show ?thesis
      by (auto simp: timerOk_def schedulePhase_fields beeped_fields)
  next
    case False
    with that tab[of j] have j: "j \<noteq> i" "timers s j = Some t" by (auto split: if_splits)
    from settled_timer[OF assms(1) j(2)] j(1) ok show ?thesis
      by (cases t) (auto simp: timerOk_def schedulePhase_fields beeped_fields)
  qed
  moreover have "isActive s \<and> 0 < timeLeft s \<longrightarrow>
         (\<exists>k. timerIntervalRef s = Some k \<and> timers s k = Some (Interval (totalSessions s)))"
    using assms(1) by (simp add: settled_def)
  ultimately show ?thesis
    using settled_refs[OF assms(1)] settled_range[OF assms(1)] ok tab
    by (auto simp: settled_def schedulePhase_fields beeped_fields)
qed

lemma settled_initEffect: "settled (initEffect (initialState st))"
  by (cases st) (simp_all add: settled_def initEffect_def initialState_def INITIAL_TIME_def holdOptions_def)

lemma mount_eq: "mount P st = Inr (initEffect (initialState st))"
proof -
  let ?s = "initEffect (initialState st)"
  have a: "\<not> isActive ?s" "timers ?s = Map.empty"
    by (cases st; simp add: initEffect_def initialState_def)+
  then show ?thesis
    by (simp add: mount_def timerEffect_def phaseEffect_def clearTimer_empty clearTimer_fields)
qed

lemma fire_settled:
  assumes "settled s" "fire P i s = Inr s'"
  shows "settled s'"
proof (cases "timers s i")
  case None
  with assms show ?thesis by (simp add: fire_none)
next
  case (Some t)
  show ?thesis
  proof (cases t)
    case (Interval cap)
    show ?thesis
    proof (cases "1 < timeLeft s")
      case True
      with assms Some Interval fire_tick[of s i cap P] settled_tick[of s i cap] show ?thesis by simp
    next
      case False
      from settled_timer[OF assms(1)] Some Interval have "isActive s" by (simp add: timerOk_def)
      with False assms Some Interval fire_complete[of s i cap P] settled_complete[of s P] show ?thesis
        by (simp split: if_splits)
    qed
  next
    case (Timeout st a h d)
    with assms Some fire_timeout[of s i st a h d P] settled_timeout[of s i st a h d P] show ?thesis
      by (simp split: if_splits)
  qed
qed

lemma step_settled:
  assumes "settled s" "offered ev s" "step P ev s = Inr s'"
  shows "settled s'"
proof (cases ev)
  case StartPause
  show ?thesis
  proof (cases "isActive s")
    case True
    with assms StartPause step_pause[of s P] settled_pause[of s] show ?thesis by simp
  next
    case False
    show ?thesis
    proof (cases "timeLeft s = 0")
      case True
      from settled_Done[OF assms(1)] settled_inactive_timers[OF assms(1) False]
      have "settled (resetSession s)" by (simp add: resetSession_def timers_upd_same)
      with True False assms StartPause step_finished[of s P] show ?thesis by simp
    next
      case nz: False
      with False assms StartPause step_start[of s P] settled_resume[of s P] settled_start[of s P]
      show ?thesis by (auto split: if_splits)
    qed
  qed
next
  case Reset
  with assms step_Reset[of s P] settled_Reset[of s] show ?thesis by simp
next
  case Done
  with assms step_Done[of s P] settled_Done[of s] show ?thesis by simp
next
  case (SelectHold sec)
  with assms step_SelectHold[of P sec s] settled_SelectHold[of s sec] show ?thesis
    by (auto simp: offered_def)
next
  case (Fire i)
  with assms fire_settled[of s P i s'] show ?thesis by (simp add: step_def)
qed

lemma reachable_settled: "reachable P st s \<Longrightarrow> settled s"
proof (induction rule: reachable.induct)
  case (mounted s)
  then show ?case using settled_initEffect[of st] by (simp add: mount_eq)
next
  case (stepped s ev s')
  then show ?case by (blast intro: step_settled)
qed

lemma initEffect_Text: "saved \<noteq> [] \<Longrightarrow> totalSessions (initEffect (initialState (Text saved))) = parseInt10 saved"
  by (simp add: initEffect_def initialState_def)

lemma parseInt10_no_digit:
  assumes "\<forall>c \<in> set ws. isWhite c" "sg = [] \<or> sg = ''+'' \<or> sg = ''-''"
    "rest = [] \<or> (\<not> isDigit (hd rest) \<and> (sg = [] \<longrightarrow> \<not> isWhite (hd rest) \<and> hd rest \<noteq> CHR ''+'' \<and> hd rest \<noteq> CHR ''-''))"
  shows "parseInt10 (ws @ sg @ rest) = NaN"
proof -
  have nw: "sg @ rest = [] \<or> \<not> isWhite (hd (sg @ rest))"
    using assms(2,3) by (auto simp: isWhite_def)
  have d: "dropWhile isWhite (ws @ sg @ rest) = sg @ rest"
    using assms(1) nw by (cases "sg @ rest") (auto simp: dropWhile_append)
  show ?thesis
    using assms(2,3) unfolding parseInt10_def d
    by (cases rest) (auto simp: Let_def)
qed

subsection \<open>C6: loading the counter at start-up\<close>

text \<open>
  C6 as stated fails: a stored text that is not a number, such as \<open>abc\<close>, does not
  load 0; \<open>parseInt\<close> gives \<open>NaN\<close> and the component keeps it.
\<close>

theorem counter_load_counterexample:
  "totalSessions (initEffect (initialState (Text ''abc''))) \<noteq> Num 0"
  by (simp add: initEffect_def initialState_def parseInt10_def isWhite_def isDigit_def)

text \<open>
  C6, amended: an absent entry and the empty string leave the counter at 0. A text that
  starts with a base-10 integer of magnitude at most \<open>2 ^ 53\<close>, followed by nothing or by
  a character that is not a digit, loads that integer. A non-empty text in which no digit
  follows the leading white space and the optional sign loads \<open>NaN\<close>; nothing falls
  back to 0.
\<close>

theorem counter_load:
  "totalSessions (initEffect (initialState Absent)) = Num 0 \<and>
   totalSessions (initEffect (initialState (Text []))) = Num 0 \<and>
   (\<bar>n\<bar> \<le> 2 ^ 53 \<and> (rest = [] \<or> \<not> isDigit (hd rest)) \<longrightarrow>
      totalSessions (initEffect (initialState (Text (showInt n @ rest)))) = Num n) \<and>
   ((\<forall>c \<in> set ws. isWhite c) \<and> (sg = [] \<or> sg = ''+'' \<or> sg = ''-'') \<and>
    (junk = [] \<or> (\<not> isDigit (hd junk) \<and> (sg = [] \<longrightarrow> \<not> isWhite (hd junk) \<and> hd junk \<noteq> CHR ''+'' \<and> hd junk \<noteq> CHR ''-''))) \<and>
    ws @ sg @ junk \<noteq> [] \<longrightarrow>
      totalSessions (initEffect (initialState (Text (ws @ sg @ junk)))) = NaN)"
proof -
  have a: "totalSessions (initEffect (initialState Absent)) = Num 0"
    "totalSessions (initEffect (initialState (Text []))) = Num 0"
    by (simp_all add: initEffect_def initialState_def)
  have ne: "showInt n @ rest \<noteq> []"
    using showNat_nonempty by (simp add: showInt_def)
  have b: "\<bar>n\<bar> \<le> 2 ^ 53 \<and> (rest = [] \<or> \<not> isDigit (hd rest)) \<longrightarrow>
      totalSessions (initEffect (initialState (Text (showInt n @ rest)))) = Num n"
    using parseInt10_showInt[of rest n] by (simp add: initEffect_Text[OF ne] toNumber_def)
  have c: "(\<forall>c \<in> set ws. isWhite c) \<and> (sg = [] \<or> sg = ''+'' \<or> sg = ''-'') \<and>
    (junk = [] \<or> (\<not> isDigit (hd junk) \<and> (sg = [] \<longrightarrow> \<not> isWhite (hd junk) \<and> hd junk \<noteq> CHR ''+'' \<and> hd junk \<noteq> CHR ''-''))) \<and>
    ws @ sg @ junk \<noteq> [] \<longrightarrow>
      totalSessions (initEffect (initialState (Text (ws @ sg @ junk)))) = NaN"
    using parseInt10_no_digit[of ws sg junk] initEffect_Text[of "ws @ sg @ junk"] by auto
  from a b c show ?thesis by blast
qed

theorem counter_load_witness:
  "totalSessions (initEffect (initialState (Text ''12''))) = Num 12 \<and>
   totalSessions (initEffect (initialState (Text ''7 sessions''))) = Num 7 \<and>
   totalSessions (initEffect (initialState (Text '' -x''))) = NaN"
proof -
  have s12: "showInt 12 = ''12''" and s7: "showInt 7 = ''7''"
    by code_simp+
  have w: "\<forall>c \<in> set '' ''. isWhite c" by (simp add: isWhite_def)
  have nd: "\<not> isDigit (hd ''x'')" "\<not> isDigit (hd '' sessions'')" by (simp_all add: isDigit_def)
  from counter_load[of 12 "[]" "'' ''" "''-''" "''x''"] counter_load[of 7 "'' sessions''" "[]" "[]" "[]"]
  show ?thesis using s12 s7 w nd by simp
qed

subsection \<open>C8: choosing the hold duration\<close>

text \<open>
  C8: the click on a hold-duration button leaves the whole state as it is while the
  session is active, and otherwise sets \<open>holdDuration\<close> to the value of the button and
  changes no other field.
\<close>

theorem hold_click:
  "(isActive s \<longrightarrow> step P (SelectHold sec) s = Inr s) \<and>
   (\<not> isActive s \<longrightarrow> step P (SelectHold sec) s = Inr (s\<lparr>holdDuration := sec\<rparr>))"
  by (simp add: step_SelectHold)


subsection \<open>C9: reset\<close>

lemma clearTimer_noop:
  assumes "\<And>i. r = Some i \<Longrightarrow> i \<noteq> 0 \<Longrightarrow> timers s i = None"
  shows "clearTimer r s = s"
proof (cases r)
  case None then show ?thesis by (simp add: clearTimer_def)
next
  case (Some i)
  show ?thesis
  proof (cases "i = 0")
    case True with Some show ?thesis by (simp add: clearTimer_def)
  next
    case False
    with assms Some have "(timers s)(i := None) = timers s" by (simp add: fun_upd_idem)
    with Some False show ?thesis by (simp add: clearTimer_def timers_upd_same)
  qed
qed

lemma handleReset_fields:
  "timeLeft (handleReset s) = INITIAL_TIME"
  "isActive (handleReset s) = False"
  "phase (handleReset s) = Ready"
  "showCelebration (handleReset s) = False"
  "holdDuration (handleReset s) = holdDuration s"
  "totalSessions (handleReset s) = totalSessions s"
  "timerIntervalRef (handleReset s) = timerIntervalRef s"
  "phaseTimeoutRef (handleReset s) = phaseTimeoutRef s"
  "timers (handleReset s) i =
     (if (timerIntervalRef s = Some i \<or> phaseTimeoutRef s = Some i) \<and> i \<noteq> 0 then None else timers s i)"
  by (simp_all add: handleReset_def Let_def clearTimer_fields clearTimer_timers)

lemma step_Reset_any: "step P Reset s = Inr (handleReset s)"
proof -
  let ?n = "handleReset s"
  have t: "clearTimer (timerIntervalRef s) ?n = ?n"
    by (rule clearTimer_noop) (simp add: handleReset_fields)
  have p: "clearTimer (phaseTimeoutRef s) ?n = ?n"
    by (rule clearTimer_noop) (simp add: handleReset_fields)
  have "timerEffect (timerEffectCleanup ?n) = ?n"
    by (simp add: timerEffect_def timerEffectCleanup_def t handleReset_fields)
  then show ?thesis
    by (simp add: step_def commit_def phaseEffect_def handleReset_fields p Let_def)
qed

lemma handleReset_idem: "handleReset (handleReset s) = handleReset s"
proof -
  let ?n = "handleReset s"
  have t: "clearTimer (timerIntervalRef s) ?n = ?n"
    by (rule clearTimer_noop) (simp add: handleReset_fields)
  have p: "clearTimer (phaseTimeoutRef s) ?n = ?n"
    by (rule clearTimer_noop) (simp add: handleReset_fields)
  have u: "?n\<lparr>isActive := False, timeLeft := INITIAL_TIME, phase := Ready, showCelebration := False\<rparr> = ?n"
    by (cases "handleReset s") (use handleReset_fields(1-4)[of s] in simp)
  show ?thesis
    by (subst (1) handleReset_def) (simp add: Let_def u handleReset_fields clearTimer_fields p t)
qed

text \<open>
  C9: the Reset button yields \<open>timeLeft = INITIAL_TIME\<close>, \<open>phase = Ready\<close>, an inactive
  session and no celebration; pressing it again yields the same state; and from a state
  between events no timer of the platform is left live.
\<close>

theorem reset_idempotent:
  "step P Reset s = Inr (handleReset s) \<and>
   step P Reset (handleReset s) = Inr (handleReset s) \<and>
   timeLeft (handleReset s) = INITIAL_TIME \<and> phase (handleReset s) = Ready \<and>
   \<not> isActive (handleReset s) \<and> \<not> showCelebration (handleReset s) \<and>
   (settled s \<longrightarrow> timers (handleReset s) = Map.empty)"
  by (simp add: step_Reset_any handleReset_idem handleReset_fields handleReset_timers)

subsection \<open>Example states\<close>

lemma initEffect_Absent: "initEffect (initialState Absent) = initialState Absent"
  by (simp add: initEffect_def initialState_def)


lemma start_midInhale: "step workingAudio StartPause (initialState Absent) = Inr midInhale"
  by (simp add: step_def handleStartPause_def commit_def timerEffect_def timerEffectCleanup_def
      phaseEffect_def startBreathingCycle_def playBeep_def schedulePhase_def addTimer_def
      clearTimer_def bindE_def initialState_def workingAudio_def midInhale_def
      INITIAL_TIME_def INHALE_TIME_def Let_def numeral_2_eq_2)

lemma reachable_initial: "reachable P Absent (initialState Absent)"
  using reachable.mounted[of P Absent] by (simp add: mount_eq initEffect_Absent)

lemma reachable_midInhale: "reachable workingAudio Absent midInhale"
  using reachable.stepped[OF reachable_initial _ start_midInhale] by (simp add: offered_def)

lemma settled_midInhale: "settled midInhale"
  using reachable_settled[OF reachable_midInhale] .

lemmas eval_defs = step_def fire_def tickCallback_def handleStartPause_def commit_def timerEffect_def
  timerEffectCleanup_def phaseEffect_def startBreathingCycle_def playBeep_def schedulePhase_def
  addTimer_def clearTimer_def bindE_def initialState_def INITIAL_TIME_def INHALE_TIME_def Let_def

lemma tick_midInhale: "fire workingAudio 1 midInhale = Inr afterTick"
  by (auto simp: eval_defs midInhale_def afterTick_def workingAudio_def fun_eq_iff numeral_3_eq_3 numeral_2_eq_2)



lemma start_nanInhale: "step workingAudio StartPause (initEffect (initialState (Text ''abc''))) = Inr nanInhale"
  by (auto simp: eval_defs initEffect_def parseInt10_def isWhite_def isDigit_def nanInhale_def workingAudio_def fun_eq_iff numeral_2_eq_2)

lemma start_midInhale_storeFull: "step storeFull StartPause (initialState Absent) = Inr midInhale"
  by (simp add: eval_defs storeFull_def midInhale_def numeral_2_eq_2)

lemma reachable_storeFull_midInhale: "reachable storeFull Absent midInhale"
  using reachable.stepped[OF reachable_initial _ start_midInhale_storeFull] by (simp add: offered_def)

lemma reachable_afterTick: "reachable workingAudio Absent afterTick"
  using reachable.stepped[OF reachable_midInhale, of "Fire 1" afterTick] tick_midInhale
  by (simp add: offered_def step_def)

lemma settled_afterTick: "settled afterTick"
  by (rule reachable_settled[OF reachable_afterTick])

lemma ticked_1: "ticked 1 = afterTick"
  by (simp add: ticked_def afterTick_def numeral_3_eq_3)

lemma tick_ticked:
  assumes "1 \<le> k" "k < 299"
  shows "step workingAudio (Fire (k + 2)) (ticked k) = Inr (ticked (Suc k))"
  using assms
  by (auto simp: eval_defs ticked_def workingAudio_def fun_eq_iff)

lemma reachable_ticked: "1 \<le> k \<Longrightarrow> k \<le> 299 \<Longrightarrow> reachable workingAudio Absent (ticked k)"
proof (induction k)
  case 0
  then show ?case by simp
next
  case (Suc k)
  show ?case
  proof (cases "k = 0")
    case True
    then show ?thesis using reachable_afterTick ticked_1 by simp
  next
    case False
    with Suc have r: "reachable workingAudio Absent (ticked k)" and k: "1 \<le> k" "k < 299" by simp_all
    from reachable.stepped[OF r _ tick_ticked[OF k]] show ?thesis by (simp add: offered_def)
  qed
qed





lemma reachable_nanInhale: "reachable workingAudio (Text ''abc'') nanInhale"
proof -
  have "reachable workingAudio (Text ''abc'') (initEffect (initialState (Text ''abc'')))"
    by (rule reachable.mounted) (rule mount_eq)
  from reachable.stepped[OF this _ start_nanInhale] show ?thesis by (simp add: offered_def)
qed

lemma step_ticking:
  assumes "settled s" "isActive s \<longrightarrow> 0 < timeLeft s" "step P ev s = Inr s'"
  shows "isActive s' \<longrightarrow> 0 < timeLeft s'"
proof (cases ev)
  case StartPause
  show ?thesis
  proof (cases "isActive s")
    case True
    with assms StartPause step_pause[of s P] show ?thesis by auto
  next
    case False
    show ?thesis
    proof (cases "timeLeft s = 0")
      case True
      with False assms StartPause step_finished[of s P] show ?thesis by (auto simp: resetSession_def)
    next
      case nz: False
      with settled_range[OF assms(1)] have "0 < timeLeft s" by simp
      with nz False assms StartPause step_start[of s P] show ?thesis
        by (auto simp: timerEffect_fields withContext_fields schedulePhase_fields beeped_fields split: if_splits)
    qed
  qed
next
  case Reset
  with assms step_Reset[of s P] show ?thesis by auto
next
  case Done
  with assms step_Done[of s P] show ?thesis by (auto simp: resetSession_def)
next
  case (SelectHold sec)
  with assms step_SelectHold[of P sec s] show ?thesis by auto
next
  case (Fire i)
  show ?thesis
  proof (cases "timers s i")
    case None
    with assms Fire show ?thesis by (simp add: step_def fire_none)
  next
    case (Some t)
    show ?thesis
    proof (cases t)
      case (Interval cap)
      show ?thesis
      proof (cases "1 < timeLeft s")
        case True
        with assms Fire Some Interval fire_tick[of s i cap P] show ?thesis
          by (auto simp: step_def timerEffect_fields clearTimer_fields)
      next
        case False
        with assms Fire Some Interval fire_complete[of s i cap P] show ?thesis
          by (auto simp: step_def beeped_fields split: if_splits)
      qed
    next
      case (Timeout st a h d)
      from settled_timer[OF assms(1) Some] Timeout have "isActive s" by (simp add: timerOk_def)
      with assms Fire Some Timeout fire_timeout[of s i st a h d P] show ?thesis
        by (auto simp: step_def schedulePhase_fields beeped_fields split: if_splits)
    qed
  qed
qed

lemma reachable_ticking: "reachable P st s \<Longrightarrow> isActive s \<longrightarrow> 0 < timeLeft s"
proof (induction rule: reachable.induct)
  case (mounted s)
  then show ?case by (cases st) (auto simp: mount_eq initEffect_def initialState_def split: if_splits)
next
  case (stepped s ev s')
  from step_ticking[OF reachable_settled[OF stepped.hyps(1)] stepped.IH stepped.hyps(3)]
  show ?case .
qed

theorem reset_idempotent_witness:
  "settled afterTick \<and> isActive afterTick \<and> timeLeft afterTick = 299 \<and> phase afterTick = Inhale \<and>
   timers afterTick 2 = Some (Timeout ToHold True 1 4000) \<and>
   timers afterTick 3 = Some (Interval (Num 0)) \<and>
   step workingAudio Reset afterTick = Inr (handleReset afterTick) \<and>
   step workingAudio Reset (handleReset afterTick) = Inr (handleReset afterTick) \<and>
   timeLeft (handleReset afterTick) = 300 \<and> phase (handleReset afterTick) = Ready \<and>
   \<not> isActive (handleReset afterTick) \<and> timers (handleReset afterTick) = Map.empty \<and>
   settled finished \<and> showCelebration finished \<and> timeLeft finished = 0 \<and> phase finished = Complete \<and>
   step workingAudio Reset finished = Inr (handleReset finished) \<and>
   step workingAudio Reset (handleReset finished) = Inr (handleReset finished) \<and>
   timeLeft (handleReset finished) = 300 \<and> phase (handleReset finished) = Ready \<and>
   \<not> showCelebration (handleReset finished)"
proof -
  have a: "isActive afterTick" "timeLeft afterTick = 299" "phase afterTick = Inhale"
    "timers afterTick 2 = Some (Timeout ToHold True 1 4000)"
    "timers afterTick 3 = Some (Interval (Num 0))"
    by (simp_all add: afterTick_def)
  have f: "showCelebration finished" "timeLeft finished = 0" "phase finished = Complete"
    by (simp_all add: finished_def)
  have sf: "settled finished"
    by (simp add: settled_def finished_def INITIAL_TIME_def holdOptions_def)
  from reset_idempotent[of workingAudio afterTick] reset_idempotent[of workingAudio finished]
    settled_afterTick sf a f
  show ?thesis by (simp add: INITIAL_TIME_def)
qed

subsection \<open>C3: no phase transition after deactivation\<close>

lemma run_fires_empty: "timers s = Map.empty \<Longrightarrow> run P (map Fire ids) s = Inr s"
  by (induction ids) (simp_all add: step_def fire_none bindE_def)

text \<open>
  C3: when an active session, with whatever phase transition is scheduled, is paused or
  reset, no timer of the platform is left live, so whichever timers the platform tries to
  fire afterwards, the state and with it the phase stay as they are. Pausing and then
  resetting leaves \<open>phase = Ready\<close> after any such attempts.
\<close>

theorem deactivated_no_transition:
  assumes "settled s" "isActive s"
  shows "\<exists>s1 s2.
     step P StartPause s = Inr s1 \<and> \<not> isActive s1 \<and> phase s1 = phase s \<and>
     timers s1 = Map.empty \<and> run P (map Fire ids) s1 = Inr s1 \<and>
     step P Reset s = Inr s2 \<and> \<not> isActive s2 \<and> phase s2 = Ready \<and>
     timers s2 = Map.empty \<and> run P (map Fire ids) s2 = Inr s2 \<and>
     run P (StartPause # Reset # map Fire ids') s = Inr s2"
proof -
  let ?s1 = "s\<lparr>isActive := False, timers := Map.empty\<rparr>"
  let ?s2 = "s\<lparr>isActive := False, timeLeft := INITIAL_TIME, phase := Ready, showCelebration := False, timers := Map.empty\<rparr>"
  have p: "step P StartPause s = Inr ?s1" by (rule step_pause[OF assms])
  have r: "step P Reset s = Inr ?s2" by (rule step_Reset[OF assms(1)])
  have "settled ?s1" by (rule settled_pause[OF assms])
  then have r1: "step P Reset ?s1 = Inr ?s2" using step_Reset[of ?s1 P] by simp
  have f1: "run P (map Fire ids) ?s1 = Inr ?s1" by (rule run_fires_empty) simp
  have f2: "run P (map Fire ids) ?s2 = Inr ?s2" by (rule run_fires_empty) simp
  have f3: "run P (map Fire ids') ?s2 = Inr ?s2" by (rule run_fires_empty) simp
  have "run P (StartPause # Reset # map Fire ids') s = Inr ?s2"
    using p r1 f3 by (simp add: bindE_def)
  with p r f1 f2 show ?thesis by simp
qed

theorem deactivated_no_transition_witness:
  "settled midInhale \<and> isActive midInhale \<and> phase midInhale = Inhale \<and>
   timers midInhale 2 = Some (Timeout ToHold True 1 (INHALE_TIME * 1000)) \<and>
   (\<exists>s2. run workingAudio [StartPause, Reset, Fire 2] midInhale = Inr s2 \<and> phase s2 = Ready)"
proof -
  from deactivated_no_transition[OF settled_midInhale, of workingAudio "[]" "[2]"]
  have "\<exists>s2. run workingAudio [StartPause, Reset, Fire 2] midInhale = Inr s2 \<and> phase s2 = Ready"
    by (auto simp: midInhale_def)
  then show ?thesis using settled_midInhale by (simp add: midInhale_def INHALE_TIME_def)
qed


subsection \<open>C5: the Start/Pause button\<close>





subsection \<open>C10: the hold duration and the timing constants\<close>

lemma step_holdDuration:
  assumes "settled s" "step P ev s = Inr s'"
  shows "holdDuration s' = (case ev of SelectHold sec \<Rightarrow> if isActive s then holdDuration s else sec | _ \<Rightarrow> holdDuration s)"
proof (cases ev)
  case StartPause
  show ?thesis
  proof (cases "isActive s")
    case True
    with assms StartPause step_pause[of s P] show ?thesis by auto
  next
    case False
    show ?thesis
    proof (cases "timeLeft s = 0")
      case True
      with False assms StartPause step_finished[of s P] show ?thesis by (auto simp: resetSession_def)
    next
      case nz: False
      with False assms StartPause step_start[of s P] show ?thesis
        by (auto simp: timerEffect_fields withContext_fields schedulePhase_fields beeped_fields split: if_splits)
    qed
  qed
next
  case Reset
  with assms step_Reset[of s P] show ?thesis by auto
next
  case Done
  with assms step_Done[of s P] show ?thesis by (auto simp: resetSession_def)
next
  case (SelectHold sec)
  with assms step_SelectHold[of P sec s] show ?thesis by auto
next
  case (Fire i)
  show ?thesis
  proof (cases "timers s i")
    case None
    with assms Fire show ?thesis by (simp add: step_def fire_none)
  next
    case (Some t)
    show ?thesis
    proof (cases t)
      case (Interval cap)
      show ?thesis
      proof (cases "1 < timeLeft s")
        case True
        with assms Fire Some Interval fire_tick[of s i cap P] show ?thesis
          by (auto simp: step_def timerEffect_fields clearTimer_fields)
      next
        case False
        with assms Fire Some Interval fire_complete[of s i cap P] show ?thesis
          by (auto simp: step_def beeped_fields split: if_splits)
      qed
    next
      case (Timeout st a h d)
      with assms Fire Some fire_timeout[of s i st a h d P] show ?thesis
        by (auto simp: step_def schedulePhase_fields beeped_fields split: if_splits)
    qed
  qed
qed

text \<open>
  C10: in every reachable state \<open>holdDuration\<close> is 1, 2 or 4. It starts at 1, the
  buttons offer exactly 1, 2 and 4, and no event other than the click on such a button
  changes it. The session lasts 300 seconds, Inhale and Exhale 4 seconds each.
\<close>

theorem hold_values:
  assumes "reachable P st s"
  shows "holdDuration s \<in> {1, 2, 4} \<and>
         holdDuration (initialState st) = 1 \<and> holdOptions = [1, 2, 4] \<and>
         (\<forall>ev s'. step P ev s = Inr s' \<and> holdDuration s' \<noteq> holdDuration s \<longrightarrow>
             ev = SelectHold (holdDuration s')) \<and>
         INITIAL_TIME = 300 \<and> INHALE_TIME = 4 \<and> EXHALE_TIME = 4"
proof -
  from reachable_settled[OF assms] have st: "settled s" .
  then have "holdDuration s \<in> {1, 2, 4}" by (simp add: settled_def holdOptions_def)
  moreover have "ev = SelectHold (holdDuration s')"
    if "step P ev s = Inr s'" "holdDuration s' \<noteq> holdDuration s" for ev s'
    using step_holdDuration[OF st that(1)] that(2) by (cases ev) (auto split: if_splits)
  ultimately show ?thesis
    by (auto simp: initialState_def holdOptions_def INITIAL_TIME_def INHALE_TIME_def EXHALE_TIME_def)
qed

theorem hold_values_witness:
  "reachable workingAudio Absent midInhale \<and> holdDuration midInhale \<in> {1, 2, 4} \<and>
   holdDuration (initialState Absent) = 1"
  using hold_values[OF reachable_midInhale] reachable_midInhale by blast

theorem hold_click_witness:
  "isActive midInhale \<and> step workingAudio (SelectHold 4) midInhale = Inr midInhale \<and>
   \<not> isActive (initialState Absent) \<and>
   step workingAudio (SelectHold 4) (initialState Absent) = Inr ((initialState Absent)\<lparr>holdDuration := 4\<rparr>)"
  using hold_click[of midInhale workingAudio 4] hold_click[of "initialState Absent" workingAudio 4]
  by (simp add: midInhale_def initialState_def)

subsection \<open>C1 and C2: the session clock\<close>

lemma settled_interval:
  assumes "settled s" "isActive s" "0 < timeLeft s"
  obtains i where "timerIntervalRef s = Some i" "timers s i = Some (Interval (totalSessions s))"
  using assms by (auto simp: settled_def)

lemma clockTick_idle:
  assumes "settled s" "\<not> (isActive s \<and> 0 < timeLeft s)"
  shows "clockTick P s = Inr s"
proof (cases "timerIntervalRef s")
  case None then show ?thesis by (simp add: clockTick_def)
next
  case (Some i)
  have "timers s i = None"
  proof (cases "timers s i")
    case None then show ?thesis .
  next
    case (Some t)
    from settled_timer[OF assms(1) Some] assms(2) \<open>timerIntervalRef s = Some i\<close> show ?thesis
      by (cases t) (auto simp: timerOk_def)
  qed
  with Some show ?thesis by (simp add: clockTick_def fire_none)
qed

lemma runClock_idle:
  assumes "settled s" "\<not> (isActive s \<and> 0 < timeLeft s)"
  shows "runClock P n s = Inr s"
  by (induction n) (simp_all add: clockTick_idle[OF assms] bindE_def)

lemma clockTick_tick:
  assumes "settled s" "isActive s" "1 < timeLeft s"
  shows "\<exists>s'. clockTick P s = Inr s' \<and> settled s' \<and> isActive s' \<and> timeLeft s' = timeLeft s - 1 \<and>
     phase s' = phase s \<and> totalSessions s' = totalSessions s \<and>
     showCelebration s' = showCelebration s \<and> storage s' = storage s"
proof -
  from assms obtain i where i: "timerIntervalRef s = Some i" "timers s i = Some (Interval (totalSessions s))"
    by (auto elim: settled_interval)
  let ?r = "timerEffect (clearTimer (Some i) (s\<lparr>timeLeft := timeLeft s - 1\<rparr>))"
  have "clockTick P s = Inr ?r" using fire_tick[OF assms(1) i(2) assms(3), of P] i(1) by (simp add: clockTick_def)
  moreover have "settled ?r" by (rule settled_tick[OF assms(1) i(2) assms(3)])
  ultimately show ?thesis using assms(2) by (simp add: timerEffect_fields clearTimer_fields)
qed

lemma clockTick_complete:
  assumes "settled s" "isActive s" "timeLeft s = 1" "\<not> nodeThrows P" "\<not> setItemThrows P"
  shows "\<exists>s'. clockTick P s = Inr s' \<and> settled s' \<and> \<not> isActive s' \<and> timeLeft s' = 0 \<and>
     phase s' = Complete \<and> showCelebration s' \<and> totalSessions s' = jsAdd1 (totalSessions s) \<and>
     storage s' = numberToStored (jsAdd1 (totalSessions s)) \<and> timers s' = Map.empty"
proof -
  from assms obtain i where i: "timerIntervalRef s = Some i" "timers s i = Some (Interval (totalSessions s))"
    by (auto elim: settled_interval)
  let ?r = "(beeped P 600 triangle (s\<lparr>isActive := False, phase := Complete, showCelebration := True\<rparr>))
             \<lparr>totalSessions := jsAdd1 (totalSessions s),
              storage := numberToStored (jsAdd1 (totalSessions s)),
              timeLeft := 0, timers := Map.empty\<rparr>"
  have "clockTick P s = Inr ?r"
    using fire_complete[OF assms(1) i(2), of P] i(1) assms(3,4,5) by (simp add: clockTick_def)
  moreover have "settled ?r" by (rule settled_complete[OF assms(1,2)])
  ultimately show ?thesis by (simp add: beeped_fields)
qed

lemma runClock_countdown:
  assumes "settled s" "isActive s" "int k < timeLeft s"
  shows "\<exists>s'. runClock P k s = Inr s' \<and> settled s' \<and> isActive s' \<and> timeLeft s' = timeLeft s - int k \<and>
     phase s' = phase s \<and> totalSessions s' = totalSessions s \<and>
     showCelebration s' = showCelebration s \<and> storage s' = storage s"
  using assms
proof (induction k arbitrary: s)
  case 0
  then show ?case by simp
next
  case (Suc k)
  from Suc.prems have "1 < timeLeft s" by simp
  from clockTick_tick[OF Suc.prems(1,2) this, of P]
  obtain s1 where s1: "clockTick P s = Inr s1" "settled s1" "isActive s1" "timeLeft s1 = timeLeft s - 1"
    "phase s1 = phase s" "totalSessions s1 = totalSessions s"
    "showCelebration s1 = showCelebration s" "storage s1 = storage s"
    by blast
  from Suc.prems s1(4) have "int k < timeLeft s1" by simp
  from Suc.IH[OF s1(2,3) this]
  obtain s' where "runClock P k s1 = Inr s'" "settled s'" "isActive s'" "timeLeft s' = timeLeft s1 - int k"
    "phase s' = phase s1" "totalSessions s' = totalSessions s1"
    "showCelebration s' = showCelebration s1" "storage s' = storage s1"
    by blast
  with s1 show ?case by (simp add: bindE_def)
qed

lemma runClock_snoc: "runClock P (Suc n) s = bindE (runClock P n s) (clockTick P)"
proof (induction n arbitrary: s)
  case 0
  then show ?case by (cases "clockTick P s") (simp_all add: bindE_def)
next
  case (Suc n)
  show ?case
  proof (cases "clockTick P s")
    case (Inl e)
    then show ?thesis by (simp add: bindE_def)
  next
    case (Inr s1)
    have "runClock P (Suc (Suc n)) s = runClock P (Suc n) s1"
      using Inr by (simp add: bindE_def)
    also have "\<dots> = bindE (runClock P n s1) (clockTick P)" by (rule Suc.IH)
    also have "\<dots> = bindE (runClock P (Suc n) s) (clockTick P)"
      using Inr by (simp add: bindE_def)
    finally show ?thesis .
  qed
qed

lemma runClock_session:
  assumes "settled s" "isActive s" "1 \<le> timeLeft s" "\<not> nodeThrows P" "\<not> setItemThrows P"
  shows "\<exists>s'. runClock P (nat (timeLeft s)) s = Inr s' \<and> settled s' \<and> \<not> isActive s' \<and> timeLeft s' = 0 \<and>
     phase s' = Complete \<and> showCelebration s' \<and> totalSessions s' = jsAdd1 (totalSessions s) \<and>
     storage s' = numberToStored (jsAdd1 (totalSessions s)) \<and> timers s' = Map.empty"
proof -
  define k where "k = nat (timeLeft s - 1)"
  have k: "int k < timeLeft s" "nat (timeLeft s) = Suc k" "timeLeft s - int k = 1"
    using assms(3) by (simp_all add: k_def)
  from runClock_countdown[OF assms(1,2) k(1), of P] k(3)
  obtain s1 where s1: "runClock P k s = Inr s1" "settled s1" "isActive s1" "timeLeft s1 = 1"
    "totalSessions s1 = totalSessions s"
    by auto
  from clockTick_complete[OF s1(2,3,4) assms(4,5)] s1(5)
  obtain s' where "clockTick P s1 = Inr s'" "settled s'" "\<not> isActive s'" "timeLeft s' = 0"
     "phase s' = Complete" "showCelebration s'" "totalSessions s' = jsAdd1 (totalSessions s)"
     "storage s' = numberToStored (jsAdd1 (totalSessions s))" "timers s' = Map.empty"
    by auto
  with s1(1) show ?thesis unfolding k(2) runClock_snoc by (simp add: bindE_def)
qed

lemma clockTick_settled:
  assumes "settled s" "clockTick P s = Inr s'"
  shows "settled s'"
  using assms fire_settled[of s P _ s'] by (auto simp: clockTick_def split: option.splits)

lemma runClock_settled:
  assumes "settled s" "runClock P n s = Inr s'"
  shows "settled s'"
  using assms
proof (induction n arbitrary: s)
  case 0 then show ?case by simp
next
  case (Suc n)
  then show ?case
    by (cases "clockTick P s") (auto simp: bindE_def dest: clockTick_settled)
qed

lemma clockTick_throws:
  assumes "settled s" "isActive s" "timeLeft s = 1" "nodeThrows P \<or> setItemThrows P"
  shows "clockTick P s = Inl (if nodeThrows P then AudioError else StorageError)"
proof -
  from assms obtain i where i: "timerIntervalRef s = Some i" "timers s i = Some (Interval (totalSessions s))"
    by (auto elim: settled_interval)
  show ?thesis
    using fire_complete[OF assms(1) i(2), of P] i(1) assms(3,4) by (auto simp: clockTick_def)
qed

lemma runClock_throws:
  assumes "settled s" "isActive s" "1 \<le> timeLeft s" "nodeThrows P \<or> setItemThrows P"
  shows "runClock P (nat (timeLeft s)) s = Inl (if nodeThrows P then AudioError else StorageError)"
proof -
  define k where "k = nat (timeLeft s - 1)"
  have k: "int k < timeLeft s" "nat (timeLeft s) = Suc k" "timeLeft s - int k = 1"
    using assms(3) by (simp_all add: k_def)
  from runClock_countdown[OF assms(1,2) k(1), of P] k(3)
  obtain s1 where s1: "runClock P k s = Inr s1" "settled s1" "isActive s1" "timeLeft s1 = 1"
    by auto
  from clockTick_throws[OF s1(2,3,4) assms(4)] s1(1)
  show ?thesis unfolding k(2) runClock_snoc by (simp add: bindE_def)
qed

lemma reachable_active:
  assumes "reachable P st s" "isActive s"
  shows "settled s \<and> 1 \<le> timeLeft s \<and> timeLeft s \<le> INITIAL_TIME"
  using reachable_settled[OF assms(1)] reachable_ticking[OF assms(1)] assms(2)
  by (simp add: settled_def)

lemma reachable_time:
  assumes "1 \<le> t" "t \<le> INITIAL_TIME"
  shows "\<exists>s0. reachable workingAudio Absent s0 \<and> isActive s0 \<and> timeLeft s0 = t"
proof (cases "t = 300")
  case True
  with reachable_midInhale show ?thesis by (auto simp: midInhale_def)
next
  case False
  with assms have k: "1 \<le> nat (300 - t)" "nat (300 - t) \<le> 299"
    by (simp_all add: INITIAL_TIME_def)
  from reachable_ticked[OF k] assms show ?thesis
    by (auto simp: ticked_def INITIAL_TIME_def intro!: exI[of _ "ticked (nat (300 - t))"])
qed

text \<open>
  C1 as stated fails: with a store that refuses the write, the tick at \<open>timeLeft = 1\<close>
  calls \<open>handleComplete\<close>, which throws at \<open>setItem\<close>, and the updater never returns 0.
\<close>

theorem clock_countdown_counterexample:
  "reachable storeFull Absent midInhale \<and> isActive midInhale \<and> timeLeft midInhale = 300 \<and>
   runClock storeFull 300 midInhale = Inl StorageError"
proof -
  have m: "isActive midInhale" "timeLeft midInhale = 300" by (simp_all add: midInhale_def)
  have "runClock storeFull (nat (timeLeft midInhale)) midInhale =
      Inl (if nodeThrows storeFull then AudioError else StorageError)"
    by (rule runClock_throws[OF settled_midInhale m(1)]) (simp_all add: m storeFull_def)
  with m reachable_storeFull_midInhale show ?thesis by (simp add: storeFull_def)
qed

text \<open>
  C1, amended: an active session the screen can be in has \<open>timeLeft = t\<close> with
  \<open>1 \<le> t \<le> INITIAL_TIME\<close>. Running its clock, on whatever platform: after \<open>k < t\<close>
  ticks \<open>timeLeft = t - k\<close> and the session is still active with its counter and
  celebration flag untouched; the \<open>t\<close>-th tick calls completion, and completes the
  session with \<open>timeLeft = 0\<close> when neither the tone nor the store write throws, after
  which ticks do nothing; when one of them throws, the exception escapes that tick.
  \<open>timeLeft\<close> is never negative, and a phase transition that fires between two ticks
  leaves the clock as it is. Every \<open>t\<close> from 1 to \<open>INITIAL_TIME\<close> is the \<open>timeLeft\<close> of
  such a session.
\<close>

theorem clock_countdown:
  assumes "reachable P st s" "isActive s"
  shows "1 \<le> timeLeft s \<and> timeLeft s \<le> INITIAL_TIME \<and>
         (\<forall>k. int k < timeLeft s \<longrightarrow>
            (\<exists>sk. runClock Q k s = Inr sk \<and> isActive sk \<and> timeLeft sk = timeLeft s - int k \<and>
               phase sk = phase s \<and> totalSessions sk = totalSessions s \<and>
               showCelebration sk = showCelebration s)) \<and>
         (\<not> nodeThrows Q \<and> \<not> setItemThrows Q \<longrightarrow>
            (\<exists>s'. runClock Q (nat (timeLeft s)) s = Inr s' \<and> \<not> isActive s' \<and> timeLeft s' = 0 \<and>
               phase s' = Complete \<and> showCelebration s' \<and> (\<forall>m. runClock Q m s' = Inr s'))) \<and>
         (nodeThrows Q \<longrightarrow> runClock Q (nat (timeLeft s)) s = Inl AudioError) \<and>
         (\<not> nodeThrows Q \<and> setItemThrows Q \<longrightarrow> runClock Q (nat (timeLeft s)) s = Inl StorageError) \<and>
         (\<forall>n sn. runClock Q n s = Inr sn \<longrightarrow> 0 \<le> timeLeft sn) \<and>
         (\<forall>i st a h d. timers s i = Some (Timeout st a h d) \<and> \<not> nodeThrows Q \<longrightarrow>
            (\<exists>s'. fire Q i s = Inr s' \<and> isActive s' \<and> timeLeft s' = timeLeft s \<and>
               totalSessions s' = totalSessions s \<and> showCelebration s' = showCelebration s)) \<and>
         (\<forall>t. 1 \<le> t \<and> t \<le> INITIAL_TIME \<longrightarrow>
            (\<exists>s0. reachable workingAudio Absent s0 \<and> isActive s0 \<and> timeLeft s0 = t))"
proof -
  from reachable_active[OF assms] have st: "settled s" and t: "1 \<le> timeLeft s" "timeLeft s \<le> INITIAL_TIME"
    by simp_all
  have b: "\<exists>sk. runClock Q k s = Inr sk \<and> isActive sk \<and> timeLeft sk = timeLeft s - int k \<and>
                  phase sk = phase s \<and> totalSessions sk = totalSessions s \<and>
                  showCelebration sk = showCelebration s"
    if "int k < timeLeft s" for k
    using runClock_countdown[OF st assms(2) that, of Q] by blast
  have c: "\<exists>s'. runClock Q (nat (timeLeft s)) s = Inr s' \<and> \<not> isActive s' \<and> timeLeft s' = 0 \<and>
               phase s' = Complete \<and> showCelebration s' \<and> (\<forall>m. runClock Q m s' = Inr s')"
    if h: "\<not> nodeThrows Q" "\<not> setItemThrows Q"
  proof -
    from runClock_session[OF st assms(2) t(1) h]
    obtain s' where s': "runClock Q (nat (timeLeft s)) s = Inr s'" "settled s'" "\<not> isActive s'"
      "timeLeft s' = 0" "phase s' = Complete" "showCelebration s'"
      by blast
    have "runClock Q m s' = Inr s'" for m
      using runClock_idle[OF s'(2), of Q m] s'(3) by simp
    with s' show ?thesis by blast
  qed
  have d1: "runClock Q (nat (timeLeft s)) s = Inl AudioError" if "nodeThrows Q"
    using runClock_throws[OF st assms(2) t(1), of Q] that by simp
  have d2: "runClock Q (nat (timeLeft s)) s = Inl StorageError" if "\<not> nodeThrows Q" "setItemThrows Q"
    using runClock_throws[OF st assms(2) t(1), of Q] that by simp
  have e: "0 \<le> timeLeft sn" if "runClock Q n s = Inr sn" for n sn
    using runClock_settled[OF st that] by (simp add: settled_def)
  have f: "\<exists>s'. fire Q i s = Inr s' \<and> isActive s' \<and> timeLeft s' = timeLeft s \<and>
               totalSessions s' = totalSessions s \<and> showCelebration s' = showCelebration s"
    if h: "timers s i = Some (Timeout stg a h d)" "\<not> nodeThrows Q" for i stg a h d
    using fire_timeout[OF st h(1), of Q] h(2) assms(2)
    by (simp add: schedulePhase_fields beeped_fields)
  have g: "\<exists>s0. reachable workingAudio Absent s0 \<and> isActive s0 \<and> timeLeft s0 = u"
    if "1 \<le> u" "u \<le> INITIAL_TIME" for u
    using reachable_time[OF that] .
  from t b c d1 d2 e f g show ?thesis by blast
qed

theorem clock_countdown_witness:
  "reachable workingAudio Absent midInhale \<and> isActive midInhale \<and> timeLeft midInhale = 300 \<and>
   \<not> nodeThrows workingAudio \<and> \<not> setItemThrows workingAudio \<and>
   (\<exists>sk. runClock workingAudio 299 midInhale = Inr sk \<and> isActive sk \<and> timeLeft sk = 1) \<and>
   (\<exists>s'. runClock workingAudio 300 midInhale = Inr s' \<and> \<not> isActive s' \<and> timeLeft s' = 0 \<and>
      phase s' = Complete) \<and>
   nodeThrows brokenAudio \<and> runClock brokenAudio 300 midInhale = Inl AudioError \<and>
   reachable workingAudio Absent afterTick \<and> isActive afterTick \<and> timeLeft afterTick = 299 \<and>
   (\<exists>s'. runClock workingAudio 299 afterTick = Inr s' \<and> timeLeft s' = 0 \<and> phase s' = Complete)"
proof -
  have m: "isActive midInhale" "timeLeft midInhale = 300" by (simp_all add: midInhale_def)
  have a: "isActive afterTick" "timeLeft afterTick = 299" by (simp_all add: afterTick_def)
  have w: "\<not> nodeThrows workingAudio" "\<not> setItemThrows workingAudio" "nodeThrows brokenAudio"
    by (simp_all add: workingAudio_def brokenAudio_def)
  note c = clock_countdown[OF reachable_midInhale m(1), of workingAudio]
  from c m(2)
  have p: "(\<forall>k. int k < 300 \<longrightarrow>
               (\<exists>sk. runClock workingAudio k midInhale = Inr sk \<and> isActive sk \<and> timeLeft sk = 300 - int k \<and>
                  phase sk = phase midInhale \<and> totalSessions sk = totalSessions midInhale \<and>
                  showCelebration sk = showCelebration midInhale))"
    by simp
  from c m(2) w
  have q: "(\<exists>s'. runClock workingAudio (nat 300) midInhale = Inr s' \<and> \<not> isActive s' \<and> timeLeft s' = 0 \<and>
               phase s' = Complete \<and> showCelebration s' \<and> (\<forall>m. runClock workingAudio m s' = Inr s'))"
    by simp
  from p[rule_format, of 299] have p1: "\<exists>sk. runClock workingAudio 299 midInhale = Inr sk \<and> isActive sk \<and> timeLeft sk = 1"
    by auto
  from q have q1: "\<exists>s'. runClock workingAudio 300 midInhale = Inr s' \<and> \<not> isActive s' \<and> timeLeft s' = 0 \<and>
      phase s' = Complete" by auto
  from clock_countdown[OF reachable_midInhale m(1), of brokenAudio] m(2) w(3)
  have r: "runClock brokenAudio 300 midInhale = Inl AudioError" by simp
  from clock_countdown[OF reachable_afterTick a(1), of workingAudio] a(2) w
  have "(\<exists>s'. runClock workingAudio (nat 299) afterTick = Inr s' \<and> \<not> isActive s' \<and> timeLeft s' = 0 \<and>
               phase s' = Complete \<and> showCelebration s' \<and> (\<forall>m. runClock workingAudio m s' = Inr s'))"
    by simp
  then have t: "\<exists>s'. runClock workingAudio 299 afterTick = Inr s' \<and> timeLeft s' = 0 \<and> phase s' = Complete"
    by auto
  from p1 q1 r t m a w reachable_midInhale reachable_afterTick show ?thesis by simp
qed

text \<open>
  C2 as stated fails: when the store held \<open>abc\<close> the counter is \<open>NaN\<close>, and the session
  that runs to its end leaves the counter at \<open>NaN\<close> and stores the text \<open>NaN\<close>.
\<close>

theorem session_complete_counterexample:
  "reachable workingAudio (Text ''abc'') nanInhale \<and> isActive nanInhale \<and>
   timeLeft nanInhale = 300 \<and> totalSessions nanInhale = NaN \<and>
   map_sum id phase (runClock workingAudio 300 nanInhale) = Inr Complete \<and>
   map_sum id totalSessions (runClock workingAudio 300 nanInhale) = Inr NaN \<and>
   map_sum id storage (runClock workingAudio 300 nanInhale) = Inr (Text ''NaN'')"
proof -
  have n: "isActive nanInhale" "timeLeft nanInhale = 300" "totalSessions nanInhale = NaN"
    by (simp_all add: nanInhale_def)
  have w: "\<not> nodeThrows workingAudio" "\<not> setItemThrows workingAudio"
    by (simp_all add: workingAudio_def)
  have "1 \<le> timeLeft nanInhale" using n(2) by simp
  from runClock_session[OF reachable_settled[OF reachable_nanInhale] n(1) this w] n(2,3)
  obtain s' where "runClock workingAudio 300 nanInhale = Inr s'" "phase s' = Complete"
    "totalSessions s' = NaN" "storage s' = Text ''NaN''"
    by auto
  with n reachable_nanInhale show ?thesis by simp
qed

text \<open>
  C2, amended: when the clock of an active session runs to zero and neither the
  completion tone nor the store write throws, the session ends with \<open>isActive = false\<close>,
  \<open>phase = Complete\<close>, \<open>showCelebration = true\<close>; a counter that holds an integer \<open>n\<close>
  with \<open>- (2 ^ 53) \<le> n < 2 ^ 53\<close> becomes \<open>n + 1\<close> and the store holds the decimal text of
  \<open>n + 1\<close>; a counter that is \<open>NaN\<close> stays \<open>NaN\<close> and the store holds \<open>NaN\<close>.
  \<open>handleComplete\<close> alone does the same. When the tone or the store write throws,
  the exception escapes \<open>handleComplete\<close> and the tick.
\<close>

theorem session_complete:
  assumes "reachable P st s" "isActive s"
  shows "(\<not> nodeThrows Q \<and> \<not> setItemThrows Q \<longrightarrow>
           (\<exists>s'. runClock Q (nat (timeLeft s)) s = Inr s' \<and> \<not> isActive s' \<and> phase s' = Complete \<and>
              showCelebration s' \<and> timeLeft s' = 0 \<and>
              (\<forall>n. totalSessions s = Num n \<and> - (2 ^ 53) \<le> n \<and> n < 2 ^ 53 \<longrightarrow>
                 totalSessions s' = Num (n + 1) \<and> storage s' = Text (showInt (n + 1))) \<and>
              (totalSessions s = NaN \<longrightarrow> totalSessions s' = NaN \<and> storage s' = Text ''NaN'')) \<and>
           (\<exists>s1. handleComplete Q (totalSessions s) s = Inr s1 \<and> \<not> isActive s1 \<and> phase s1 = Complete \<and>
              showCelebration s1 \<and>
              (\<forall>n. totalSessions s = Num n \<and> - (2 ^ 53) \<le> n \<and> n < 2 ^ 53 \<longrightarrow>
                 totalSessions s1 = Num (n + 1) \<and> storage s1 = Text (showInt (n + 1))) \<and>
              (totalSessions s = NaN \<longrightarrow> totalSessions s1 = NaN \<and> storage s1 = Text ''NaN''))) \<and>
         (nodeThrows Q \<longrightarrow> runClock Q (nat (timeLeft s)) s = Inl AudioError \<and>
            handleComplete Q (totalSessions s) s = Inl AudioError) \<and>
         (\<not> nodeThrows Q \<and> setItemThrows Q \<longrightarrow> runClock Q (nat (timeLeft s)) s = Inl StorageError \<and>
            handleComplete Q (totalSessions s) s = Inl StorageError)"
proof -
  from reachable_active[OF assms] have st: "settled s" and t: "1 \<le> timeLeft s" by simp_all
  from settled_ctx[OF st] assms(2) obtain c where ctx: "audioContextRef s = Some c" by auto
  have a: "\<exists>s'. runClock Q (nat (timeLeft s)) s = Inr s' \<and> \<not> isActive s' \<and> phase s' = Complete \<and>
              showCelebration s' \<and> timeLeft s' = 0 \<and>
              (\<forall>n. totalSessions s = Num n \<and> - (2 ^ 53) \<le> n \<and> n < 2 ^ 53 \<longrightarrow>
                 totalSessions s' = Num (n + 1) \<and> storage s' = Text (showInt (n + 1))) \<and>
              (totalSessions s = NaN \<longrightarrow> totalSessions s' = NaN \<and> storage s' = Text ''NaN'')"
    if h: "\<not> nodeThrows Q" "\<not> setItemThrows Q"
    using runClock_session[OF st assms(2) t h] by auto
  have b: "\<exists>s1. handleComplete Q (totalSessions s) s = Inr s1 \<and> \<not> isActive s1 \<and> phase s1 = Complete \<and>
              showCelebration s1 \<and>
              (\<forall>n. totalSessions s = Num n \<and> - (2 ^ 53) \<le> n \<and> n < 2 ^ 53 \<longrightarrow>
                 totalSessions s1 = Num (n + 1) \<and> storage s1 = Text (showInt (n + 1))) \<and>
              (totalSessions s = NaN \<longrightarrow> totalSessions s1 = NaN \<and> storage s1 = Text ''NaN'')"
    if h: "\<not> nodeThrows Q" "\<not> setItemThrows Q"
    using ctx h by (auto simp: handleComplete_def playBeep_eq bindE_def beeped_fields Let_def)
  have c1: "runClock Q (nat (timeLeft s)) s = Inl AudioError \<and>
            handleComplete Q (totalSessions s) s = Inl AudioError" if "nodeThrows Q"
    using runClock_throws[OF st assms(2) t, of Q] that
    by (simp add: handleComplete_def playBeep_eq bindE_def)
  have c2: "runClock Q (nat (timeLeft s)) s = Inl StorageError \<and>
            handleComplete Q (totalSessions s) s = Inl StorageError" if "\<not> nodeThrows Q" "setItemThrows Q"
    using runClock_throws[OF st assms(2) t, of Q] that ctx
    by (simp add: handleComplete_def playBeep_eq bindE_def Let_def)
  from a b c1 c2 show ?thesis by blast
qed

theorem session_complete_witness:
  "reachable workingAudio Absent midInhale \<and> isActive midInhale \<and>
   \<not> nodeThrows workingAudio \<and> \<not> setItemThrows workingAudio \<and>
   totalSessions midInhale = Num 0 \<and> - (2 ^ 53) \<le> (0::int) \<and> (0::int) < 2 ^ 53 \<and>
   (\<exists>s'. runClock workingAudio 300 midInhale = Inr s' \<and> \<not> isActive s' \<and> phase s' = Complete \<and>
      showCelebration s' \<and> totalSessions s' = Num 1 \<and> storage s' = Text ''1'') \<and>
   \<not> nodeThrows storeFull \<and> setItemThrows storeFull \<and>
   handleComplete storeFull (totalSessions midInhale) midInhale = Inl StorageError"
proof -
  have m: "isActive midInhale" "totalSessions midInhale = Num 0" "nat (timeLeft midInhale) = 300"
    by (simp_all add: midInhale_def)
  have w: "\<not> nodeThrows workingAudio" "\<not> setItemThrows workingAudio"
    "\<not> nodeThrows storeFull" "setItemThrows storeFull"
    by (simp_all add: workingAudio_def storeFull_def)
  have s1: "showInt (0 + 1) = ''1''" by code_simp
  from session_complete[OF reachable_midInhale m(1), of workingAudio, THEN conjunct1] w(1,2) m(2,3) s1
  have p: "\<exists>s'. runClock workingAudio 300 midInhale = Inr s' \<and> \<not> isActive s' \<and> phase s' = Complete \<and>
      showCelebration s' \<and> totalSessions s' = Num 1 \<and> storage s' = Text ''1''"
    by auto
  from session_complete[OF reachable_midInhale m(1), of storeFull] w(3,4)
  have q: "handleComplete storeFull (totalSessions midInhale) midInhale = Inl StorageError"
    by simp
  from p q m w reachable_midInhale show ?thesis by simp
qed

subsection \<open>C4: the breathing cycle\<close>






subsection \<open>C7: tone emission that fails\<close>




end
